theory Spec2Isabelle
  imports Complex_Main
begin

section \<open>Machine integers\<close>

text \<open>
  The source computes with C++ \<open>int\<close> (32 bits, signed) and \<open>int64\<close>. Values are
  modelled as mathematical integers; every 32-bit operation of the source is followed
  by the two's complement wrap-around \<open>to_int\<close>, which is also what
  \<open>static_cast<int>\<close> does to an \<open>int64\<close>.
\<close>

definition is_int :: "int \<Rightarrow> bool" where
  "is_int x \<longleftrightarrow> - 2147483648 \<le> x \<and> x \<le> 2147483647"

definition to_int :: "int \<Rightarrow> int" where
  "to_int x = (x + 2147483648) mod 4294967296 - 2147483648"

definition add32 :: "int \<Rightarrow> int \<Rightarrow> int" where
  "add32 a b = to_int (a + b)"

definition sub32 :: "int \<Rightarrow> int \<Rightarrow> int" where
  "sub32 a b = to_int (a - b)"

text \<open>
  The remainder operator of C++ truncates towards zero: the result has the sign of the
  dividend. HOL's \<open>mod\<close> rounds towards minus infinity.
\<close>

definition cpp_rem :: "int \<Rightarrow> int \<Rightarrow> int" where
  "cpp_rem a b = sgn a * (\<bar>a\<bar> mod \<bar>b\<bar>)"

text \<open>
  Modelled from the spec: the helpers \<open>jmin\<close> and \<open>jmax\<close> belong to the library
  and are not in the source file; the spec reads them as the clamping minimum and
  maximum of two values, written here as the library's two comparisons.
\<close>

definition jmin :: "int \<Rightarrow> int \<Rightarrow> int" where
  "jmin a b = (if b < a then b else a)"

definition jmax :: "int \<Rightarrow> int \<Rightarrow> int" where
  "jmax a b = (if a < b then b else a)"

section \<open>Sample buffers\<close>

text \<open>
  An \<open>AudioBuffer\<close> is a two-dimensional array, channels by frames. The source only
  clears and copies samples, so the sample type is any type with a zero.
\<close>

datatype error = OutOfRange | DivisionByZero

record 'a AudioBuffer =
  frames :: int
  chans :: "'a list list"

definition getNumSamples :: "'a AudioBuffer \<Rightarrow> int" where
  "getNumSamples b = frames b"

definition getNumChannels :: "'a AudioBuffer \<Rightarrow> int" where
  "getNumChannels b = int (length (chans b))"

definition wf_buffer :: "'a AudioBuffer \<Rightarrow> bool" where
  "wf_buffer b \<longleftrightarrow> 0 \<le> frames b \<and> is_int (frames b) \<and> is_int (int (length (chans b)))
     \<and> list_all (\<lambda>c. int (length c) = frames b) (chans b)"

definition overwrite :: "'a list \<Rightarrow> nat \<Rightarrow> 'a list \<Rightarrow> 'a list" where
  "overwrite dst start xs = take start dst @ xs @ drop (start + length xs) dst"

text \<open>
  Modelled from the spec: \<open>AudioBuffer::clear (startSample, numSamples)\<close> is library
  code outside the source file. It zero-fills the region in every channel; a region
  that does not lie inside the buffer is an out-of-range access.
\<close>

definition clear_region :: "'a::zero AudioBuffer \<Rightarrow> int \<Rightarrow> int \<Rightarrow> error + 'a AudioBuffer" where
  "clear_region b startSample num =
     (if 0 \<le> startSample \<and> 0 \<le> num \<and> startSample + num \<le> getNumSamples b
      then Inr (b\<lparr>chans := map (\<lambda>c. overwrite c (nat startSample) (replicate (nat num) 0)) (chans b)\<rparr>)
      else Inl OutOfRange)"

text \<open>
  Modelled from the spec: \<open>AudioBuffer::copyFrom (destChannel, destStartSample, source,
  sourceChannel, sourceStartSample, numSamples)\<close> is library code outside the source
  file. It copies \<open>numSamples\<close> samples of one source channel into one destination
  channel; a channel index or a region outside either buffer is an out-of-range access.
\<close>

definition copyFrom ::
  "'a AudioBuffer \<Rightarrow> int \<Rightarrow> int \<Rightarrow> 'a AudioBuffer \<Rightarrow> int \<Rightarrow> int \<Rightarrow> int \<Rightarrow> error + 'a AudioBuffer" where
  "copyFrom dst destChannel destStartSample src sourceChannel sourceStartSample num =
     (if 0 \<le> destChannel \<and> destChannel < getNumChannels dst
         \<and> 0 \<le> destStartSample \<and> 0 \<le> num \<and> destStartSample + num \<le> getNumSamples dst
         \<and> 0 \<le> sourceChannel \<and> sourceChannel < getNumChannels src
         \<and> 0 \<le> sourceStartSample \<and> sourceStartSample + num \<le> getNumSamples src
      then Inr (dst\<lparr>chans := (chans dst)[nat destChannel :=
                  overwrite (chans dst ! nat destChannel) (nat destStartSample)
                    (take (nat num) (drop (nat sourceStartSample) (chans src ! nat sourceChannel)))]\<rparr>)
      else Inl OutOfRange)"

section \<open>AudioBufferSource\<close>

record 'a AudioBufferSource =
  buffer :: "'a AudioBuffer"
  ownBuffer :: bool
  position :: int
  looping :: bool
  playAcrossAllChannels :: bool
  loopStartPos :: int
  loopLen :: int

text \<open>The constructor: position 0, not looping, the loop region is the whole buffer.\<close>

definition newAudioBufferSource :: "'a AudioBuffer \<Rightarrow> bool \<Rightarrow> bool \<Rightarrow> 'a AudioBufferSource" where
  "newAudioBufferSource audioBuffer own playOnAllChannels =
     \<lparr>buffer = audioBuffer, ownBuffer = own, position = 0, looping = False,
      playAcrossAllChannels = playOnAllChannels, loopStartPos = 0,
      loopLen = getNumSamples audioBuffer\<rparr>"

text \<open>
  \<open>setNextReadPosition\<close>: the \<open>jassert (newPosition >= 0)\<close> only fires in a debug
  build; the model is the release build, where the statement has no effect. The
  remainder by a buffer of length 0 is a division by zero.
\<close>

definition setNextReadPosition :: "'a AudioBufferSource \<Rightarrow> int \<Rightarrow> error + 'a AudioBufferSource" where
  "setNextReadPosition st newPosition =
     (if looping st \<and> getNumSamples (buffer st) = 0 then Inl DivisionByZero
      else
        let newPosition' = (if looping st then cpp_rem newPosition (getNumSamples (buffer st))
                            else newPosition)
        in Inr (st\<lparr>position := jmin (getNumSamples (buffer st)) (to_int newPosition')\<rparr>))"

definition getNextReadPosition :: "'a AudioBufferSource \<Rightarrow> int" where
  "getNextReadPosition st = position st"

definition getTotalLength :: "'a AudioBufferSource \<Rightarrow> int" where
  "getTotalLength st = getNumSamples (buffer st)"

definition isLooping :: "'a AudioBufferSource \<Rightarrow> bool" where
  "isLooping st = looping st"

definition setLooping :: "'a AudioBufferSource \<Rightarrow> bool \<Rightarrow> 'a AudioBufferSource" where
  "setLooping st shouldLoop = st\<lparr>looping := shouldLoop\<rparr>"

definition setLoopRange :: "'a AudioBufferSource \<Rightarrow> int \<Rightarrow> int \<Rightarrow> 'a AudioBufferSource" where
  "setLoopRange st loopStart loopLength =
     (let s = jmax 0 (jmin (to_int loopStart) (sub32 (getNumSamples (buffer st)) 1));
          l = jmax 1 (jmin (sub32 (getNumSamples (buffer st)) s) (to_int loopLength))
      in st\<lparr>loopStartPos := s, loopLen := l\<rparr>)"

definition getLoopRange :: "'a AudioBufferSource \<Rightarrow> int \<times> int" where
  "getLoopRange st = (loopStartPos st, loopLen st)"

subsection \<open>The block fill\<close>

record 'a AudioSourceChannelInfo =
  dest :: "'a AudioBuffer"
  startSample :: int
  numSamples :: int

text \<open>
  The \<open>for\<close> loop over the output channels. Output channel \<open>i\<close> is filled from input
  channel \<open>i % maxInChannels\<close>; with no input channel the remainder divides by zero.
  Every run is written at \<open>startSample\<close>, as in the source.
\<close>

fun copy_channels ::
  "'a AudioBufferSource \<Rightarrow> int \<Rightarrow> int \<Rightarrow> int \<Rightarrow> nat list \<Rightarrow> 'a AudioBuffer \<Rightarrow> error + 'a AudioBuffer" where
  "copy_channels st start maxInChannels samplesToCopy [] out = Inr out"
| "copy_channels st start maxInChannels samplesToCopy (i # is) out =
     (if maxInChannels = 0 then Inl DivisionByZero
      else case copyFrom out (int i) start (buffer st) (int i mod maxInChannels)
                  (position st) samplesToCopy of
             Inl e \<Rightarrow> Inl e
           | Inr out' \<Rightarrow> copy_channels st start maxInChannels samplesToCopy is out')"

text \<open>The state of the \<open>while\<close> loop: the source, the block being filled, the samples still needed.\<close>

record 'a fill_state =
  src :: "'a AudioBufferSource"
  out :: "'a AudioBuffer"
  samplesNeeded :: int

definition run_length :: "'a AudioBufferSource \<Rightarrow> int \<Rightarrow> int" where
  "run_length st needed =
     jmin (if looping st then sub32 (add32 (loopStartPos st) (loopLen st)) (position st)
           else sub32 (getNumSamples (buffer st)) (position st)) needed"

text \<open>
  One iteration of the \<open>while\<close> loop, in the two halves of its body. The first
  half copies a run of \<open>samplesToCopy\<close> samples when that is positive, and
  otherwise skips the samples still needed.
\<close>

definition copy_run :: "int \<Rightarrow> 'a fill_state \<Rightarrow> int \<Rightarrow> error + 'a fill_state" where
  "copy_run start c samplesToCopy =
     (let st = src c; needed = samplesNeeded c in
      if samplesToCopy > 0 then
        let maxInChannels = getNumChannels (buffer st);
            maxOutChannels0 = getNumChannels (out c);
            maxOutChannels = (if \<not> playAcrossAllChannels st
                              then jmin maxOutChannels0 maxInChannels else maxOutChannels0)
        in case copy_channels st start maxInChannels samplesToCopy
                  [0 ..< nat maxOutChannels] (out c) of
             Inl e \<Rightarrow> Inl e
           | Inr out' \<Rightarrow>
               Inr \<lparr>src = st\<lparr>position := add32 (position st) samplesToCopy\<rparr>,
                    out = out', samplesNeeded = sub32 needed samplesToCopy\<rparr>
      else Inr \<lparr>src = st\<lparr>position := add32 (position st) needed\<rparr>,
                out = out c, samplesNeeded = 0\<rparr>)"

text \<open>
  The second half: a looping source wraps a position at or beyond the loop end back to
  the loop start plus the overshoot; any other source moves its position once more and
  ends the loop.
\<close>

definition wrap_or_finish :: "'a fill_state \<Rightarrow> int \<Rightarrow> 'a fill_state" where
  "wrap_or_finish c1 samplesToCopy =
     (let st1 = src c1 in
      if looping st1 then
        let posdelta = sub32 (position st1) (add32 (loopStartPos st1) (loopLen st1))
        in if posdelta \<ge> 0
           then c1\<lparr>src := st1\<lparr>position := add32 (loopStartPos st1) posdelta\<rparr>\<rparr>
           else c1
      else
        c1\<lparr>src := st1\<lparr>position :=
                  add32 (position st1) (sub32 (samplesNeeded c1) samplesToCopy)\<rparr>,
            samplesNeeded := 0\<rparr>)"

definition loop_body :: "int \<Rightarrow> 'a fill_state \<Rightarrow> error + 'a fill_state" where
  "loop_body start c =
     (let samplesToCopy = run_length (src c) (samplesNeeded c)
      in case copy_run start c samplesToCopy of
           Inl e \<Rightarrow> Inl e
         | Inr c1 \<Rightarrow> Inr (wrap_or_finish c1 samplesToCopy))"

text \<open>
  The \<open>while (samplesNeeded > 0)\<close> loop. It is defined as a partial function, so that
  a loop that never ended would be the value \<open>None\<close>.
\<close>

partial_function (option) fill_loop :: "int \<Rightarrow> 'a fill_state \<Rightarrow> (error + 'a fill_state) option" where
  "fill_loop start c =
     (if samplesNeeded c > 0
      then (case loop_body start c of
              Inl e \<Rightarrow> Some (Inl e)
            | Inr c' \<Rightarrow> fill_loop start c')
      else Some (Inr c))"

declare fill_loop.simps [code]

definition getNextAudioBlock ::
  "'a::zero AudioBufferSource \<Rightarrow> 'a AudioSourceChannelInfo
     \<Rightarrow> (error + 'a AudioBufferSource \<times> 'a AudioBuffer) option" where
  "getNextAudioBlock st bufferToFill =
     (case clear_region (dest bufferToFill) (startSample bufferToFill) (numSamples bufferToFill) of
        Inl e \<Rightarrow> Some (Inl e)
      | Inr cleared \<Rightarrow>
          (case fill_loop (startSample bufferToFill)
                  \<lparr>src = st, out = cleared, samplesNeeded = numSamples bufferToFill\<rparr> of
             None \<Rightarrow> None
           | Some (Inl e) \<Rightarrow> Some (Inl e)
           | Some (Inr c) \<Rightarrow> Some (Inr (src c, out c))))"

section \<open>Runs of calls and example sources\<close>

text \<open>A sequence of \<open>setLoopRange\<close> calls, each with its start and length.\<close>

fun setLoopRanges :: "'a AudioBufferSource \<Rightarrow> (int \<times> int) list \<Rightarrow> 'a AudioBufferSource" where
  "setLoopRanges st [] = st"
| "setLoopRanges st ((a, b) # cs) = setLoopRanges (setLoopRange st a b) cs"

definition loop_range_ok :: "'a AudioBufferSource \<Rightarrow> bool" where
  "loop_range_ok st \<longleftrightarrow> 0 \<le> loopStartPos st \<and> loopStartPos st \<le> getNumSamples (buffer st) - 1
     \<and> 1 \<le> loopLen st \<and> loopLen st \<le> getNumSamples (buffer st) - loopStartPos st"

text \<open>The samples a run of \<open>n\<close> samples reads from input channel \<open>ch\<close>.\<close>

definition piece :: "'a AudioBufferSource \<Rightarrow> int \<Rightarrow> int \<Rightarrow> 'a list" where
  "piece st ch n = take (nat n) (drop (nat (position st)) (chans (buffer st) ! nat ch))"

definition empty_source :: "int AudioBufferSource" where
  "empty_source = newAudioBufferSource \<lparr>frames = 0, chans = [[]]\<rparr> True False"

definition ramp_source :: "int AudioBufferSource" where
  "ramp_source =
     newAudioBufferSource \<lparr>frames = 10, chans = [[0, 1, 2, 3, 4, 5, 6, 7, 8, 9]]\<rparr> True True"

text \<open>A block of \<open>n\<close> samples at offset 1 of a two-channel destination holding stale data.\<close>

definition stereo_block :: "int \<Rightarrow> int AudioSourceChannelInfo" where
  "stereo_block n =
     \<lparr>dest = \<lparr>frames = n + 2, chans = [replicate (nat n + 2) 9, replicate (nat n + 2) 8]\<rparr>,
      startSample = 1, numSamples = n\<rparr>"

definition loop_source :: "int AudioBufferSource" where
  "loop_source = setLoopRange (setLooping ramp_source True) 2 3"


definition seeked_source :: "int AudioBufferSource" where
  "seeked_source = (setLooping ramp_source True)\<lparr>position := 3\<rparr>"

text \<open>
  A block a caller may pass: a well-formed destination whose active region lies inside
  it, and, when the source fans out into a destination that has channels, a source
  buffer with at least one channel (the remainder \<open>i % maxInChannels\<close> is defined).
\<close>

definition block_ok :: "'a AudioBufferSource \<Rightarrow> 'a AudioSourceChannelInfo \<Rightarrow> bool" where
  "block_ok st b \<longleftrightarrow> wf_buffer (dest b) \<and> 0 \<le> startSample b \<and> 0 \<le> numSamples b
     \<and> startSample b + numSamples b \<le> getNumSamples (dest b)
     \<and> (playAcrossAllChannels st \<and> 0 < getNumChannels (dest b)
          \<longrightarrow> 0 < getNumChannels (buffer st))"

text \<open>The number of output channels a run is copied into.\<close>

definition out_channels :: "'a AudioBufferSource \<Rightarrow> 'a AudioBuffer \<Rightarrow> nat" where
  "out_channels st ob =
     nat (if \<not> playAcrossAllChannels st
          then jmin (getNumChannels ob) (getNumChannels (buffer st)) else getNumChannels ob)"

text \<open>Successive calls of \<open>getNextAudioBlock\<close>, one per block; the filled blocks are dropped.\<close>

fun pull_blocks ::
  "'a::zero AudioBufferSource \<Rightarrow> 'a AudioSourceChannelInfo list
     \<Rightarrow> (error + 'a AudioBufferSource) option" where
  "pull_blocks st [] = Some (Inr st)"
| "pull_blocks st (b # bs) =
     (case getNextAudioBlock st b of
        None \<Rightarrow> None
      | Some (Inl e) \<Rightarrow> Some (Inl e)
      | Some (Inr (st', ob)) \<Rightarrow> pull_blocks st' bs)"

text \<open>
  What one run of \<open>n\<close> samples does to the block: the first \<open>out_channels\<close> channels
  are overwritten at \<open>start\<close> with the samples read at the position of the source,
  channel \<open>i\<close> from input channel \<open>i mod maxInChannels\<close>; nothing else changes.
\<close>

definition run_written ::
  "'a AudioBufferSource \<Rightarrow> int \<Rightarrow> int \<Rightarrow> 'a AudioBuffer \<Rightarrow> 'a AudioBuffer \<Rightarrow> bool" where
  "run_written st start n ob ob' \<longleftrightarrow>
     wf_buffer ob' \<and> frames ob' = frames ob \<and> length (chans ob') = length (chans ob)
     \<and> (\<forall>i < length (chans ob). chans ob' ! i =
           (if i < out_channels st ob
            then overwrite (chans ob ! i) (nat start)
                   (piece st (int i mod getNumChannels (buffer st)) n)
            else chans ob ! i))"

text \<open>A one-frame mono source holding the sample 7, and a mono block of \<open>n\<close> samples.\<close>

definition tick_source :: "int AudioBufferSource" where
  "tick_source = newAudioBufferSource \<lparr>frames = 1, chans = [[7]]\<rparr> True False"

definition mono_block :: "int \<Rightarrow> int AudioSourceChannelInfo" where
  "mono_block n =
     \<lparr>dest = \<lparr>frames = n, chans = [replicate (nat n) 9]\<rparr>, startSample = 0, numSamples = n\<rparr>"

section \<open>SoundPlayer: objects, ownership and the mixer\<close>

text \<open>
  The playback manager allocates and deletes objects that point to each other. Objects
  live in a store indexed by their address; a deleted object leaves \<open>None\<close> behind and
  addresses are never reused, so a dangling pointer is visible. Deleting what is not
  there, and using what was deleted, are errors of the model.
\<close>

datatype lifetime_error = UseAfterFree | DoubleDelete

text \<open>
  \<^item> \<open>Buffer\<close>: an \<open>AudioBuffer\<close>; \<open>Reader rate\<close>: an \<open>AudioFormatReader\<close> with its sample rate.
  \<^item> \<open>PlainSource res\<close>: a positionable source that is not a transport, with the buffer
    or reader it holds and whether it owns it (\<open>AudioBufferSource\<close>,
    \<open>AudioFormatReaderSource\<close>), or nothing (a source of the caller).
  \<^item> \<open>Transport source owned playing\<close>: an \<open>AudioTransportSource\<close> with the source it
    references; \<open>owned\<close> is the \<open>unique_ptr\<close> of an \<open>AudioSourceOwningTransportSource\<close>.
  \<^item> \<open>Session ts own source playing\<close>: an \<open>AutoRemovingTransportSource\<close> with its
    \<open>OptionalScopedPointer transportSource\<close> (pointer and ownership flag) and, as a
    transport itself, the source it references. Its timer runs as long as it lives.
\<close>

datatype obj =
    Buffer
  | Reader real
  | PlainSource "(nat \<times> bool) option"
  | Transport "nat option" "nat option" bool
  | Session nat bool "nat option" bool

datatype teardown = Detached nat nat | Destroyed nat

record world =
  heap :: "obj option list"
  mixer :: "(nat \<times> bool) list"
  sampleRate :: real
  bufferSize :: int
  trace :: "teardown list"

definition newSoundPlayer :: "obj option list \<Rightarrow> world" where
  "newSoundPlayer objs =
     \<lparr>heap = objs, mixer = [], sampleRate = 44100, bufferSize = 512, trace = []\<rparr>"

definition obj_at :: "world \<Rightarrow> nat \<Rightarrow> obj option" where
  "obj_at w i = (if i < length (heap w) then heap w ! i else None)"

definition alloc :: "world \<Rightarrow> obj \<Rightarrow> nat \<times> world" where
  "alloc w ob = (length (heap w), w\<lparr>heap := heap w @ [Some ob]\<rparr>)"

definition release :: "world \<Rightarrow> nat \<Rightarrow> world" where
  "release w i = w\<lparr>heap := (heap w)[i := None], trace := trace w @ [Destroyed i]\<rparr>"

definition and_then ::
  "lifetime_error + world \<Rightarrow> (world \<Rightarrow> lifetime_error + world) \<Rightarrow> lifetime_error + world" where
  "and_then r f = (case r of Inl err \<Rightarrow> Inl err | Inr w \<Rightarrow> f w)"

text \<open>
  Modelled from the spec: \<open>AudioTransportSource::setSource (nullptr)\<close> is library code
  outside the source file. It detaches the source from the transport, which releases the
  source's resources and so uses the source; with no source attached it does nothing.
\<close>

definition clearSource :: "world \<Rightarrow> nat \<Rightarrow> lifetime_error + world" where
  "clearSource w t =
     (case obj_at w t of
        Some (Transport (Some s) owned playing) \<Rightarrow>
          (if obj_at w s = None then Inl UseAfterFree
           else Inr (w\<lparr>heap := (heap w)[t := Some (Transport None owned playing)],
                       trace := trace w @ [Detached t s]\<rparr>))
      | Some (Transport None owned playing) \<Rightarrow> Inr w
      | Some (Session ts own (Some s) playing) \<Rightarrow>
          (if obj_at w s = None then Inl UseAfterFree
           else Inr (w\<lparr>heap := (heap w)[t := Some (Session ts own None playing)],
                       trace := trace w @ [Detached t s]\<rparr>))
      | Some (Session ts own None playing) \<Rightarrow> Inr w
      | _ \<Rightarrow> Inl UseAfterFree)"

text \<open>
  Modelled from the spec: \<open>AudioTransportSource::setSource\<close> with a source,
  \<open>start\<close> and \<open>isPlaying\<close> are library code outside the source file. Attaching
  records the source the transport references; \<open>start\<close> sets the transport playing;
  a transport that has finished reports that it is not playing.
\<close>

definition attachSource :: "world \<Rightarrow> nat \<Rightarrow> nat \<Rightarrow> world" where
  "attachSource w t s =
     (case obj_at w t of
        Some (Transport src0 owned playing) \<Rightarrow>
          w\<lparr>heap := (heap w)[t := Some (Transport (Some s) owned playing)]\<rparr>
      | Some (Session ts own src0 playing) \<Rightarrow>
          w\<lparr>heap := (heap w)[t := Some (Session ts own (Some s) playing)]\<rparr>
      | _ \<Rightarrow> w)"

definition set_playing :: "world \<Rightarrow> nat \<Rightarrow> bool \<Rightarrow> world" where
  "set_playing w t v =
     (case obj_at w t of
        Some (Transport src0 owned playing) \<Rightarrow>
          w\<lparr>heap := (heap w)[t := Some (Transport src0 owned v)]\<rparr>
      | Some (Session ts own src0 playing) \<Rightarrow>
          w\<lparr>heap := (heap w)[t := Some (Session ts own src0 v)]\<rparr>
      | _ \<Rightarrow> w)"

definition startTransport :: "world \<Rightarrow> nat \<Rightarrow> world" where
  "startTransport w t = set_playing w t True"

definition isPlaying :: "world \<Rightarrow> nat \<Rightarrow> bool" where
  "isPlaying w t =
     (case obj_at w t of
        Some (Transport src0 owned playing) \<Rightarrow> playing
      | Some (Session ts own src0 playing) \<Rightarrow> playing
      | _ \<Rightarrow> False)"

subsection \<open>Destructors\<close>

definition delete_resource :: "world \<Rightarrow> nat \<Rightarrow> lifetime_error + world" where
  "delete_resource w r =
     (case obj_at w r of
        Some Buffer \<Rightarrow> Inr (release w r)
      | Some (Reader rate) \<Rightarrow> Inr (release w r)
      | _ \<Rightarrow> Inl DoubleDelete)"

text \<open>
  Modelled from the spec: \<open>OptionalScopedPointer\<close> is a library type outside the source
  file, a pointer with an ownership flag that deletes its object on destruction when the
  flag is set. A plain source holds its buffer or reader in one
  (\<open>AudioBufferSource::buffer\<close>).
\<close>

definition delete_source :: "world \<Rightarrow> nat \<Rightarrow> lifetime_error + world" where
  "delete_source w s =
     (case obj_at w s of
        Some (PlainSource (Some (r, True))) \<Rightarrow>
          and_then (delete_resource w r) (\<lambda>w1. Inr (release w1 s))
      | Some (PlainSource res) \<Rightarrow> Inr (release w s)
      | _ \<Rightarrow> Inl DoubleDelete)"

text \<open>
  \<open>~AudioSourceOwningTransportSource\<close>: the body calls \<open>setSource (nullptr)\<close>; then the
  member \<open>source\<close>, a \<open>unique_ptr\<close>, deletes the source; then the base class destructor
  clears the source reference once more. A transport that owns nothing runs the base
  class destructor only.
\<close>

definition delete_transport :: "world \<Rightarrow> nat \<Rightarrow> lifetime_error + world" where
  "delete_transport w t =
     (case obj_at w t of
        Some (Transport src0 (Some s) playing) \<Rightarrow>
          and_then (clearSource w t) (\<lambda>w1.
          and_then (delete_source w1 s) (\<lambda>w2.
          and_then (clearSource w2 t) (\<lambda>w3. Inr (release w3 t))))
      | Some (Transport src0 None playing) \<Rightarrow>
          and_then (clearSource w t) (\<lambda>w1. Inr (release w1 t))
      | _ \<Rightarrow> Inl DoubleDelete)"

text \<open>
  \<open>~AutoRemovingTransportSource\<close>: the body calls \<open>setSource (nullptr)\<close>; then the member
  \<open>transportSource\<close> deletes the transport when it owns it; then the base classes are
  destroyed: the timer stops, and the transport base clears its source reference again.
\<close>

definition delete_session :: "world \<Rightarrow> nat \<Rightarrow> lifetime_error + world" where
  "delete_session w x =
     (case obj_at w x of
        Some (Session ts own src0 playing) \<Rightarrow>
          and_then (clearSource w x) (\<lambda>w1.
          and_then (if own then delete_transport w1 ts else Inr w1) (\<lambda>w2.
          and_then (clearSource w2 x) (\<lambda>w3. Inr (release w3 x))))
      | _ \<Rightarrow> Inl DoubleDelete)"

subsection \<open>The mixer\<close>

text \<open>
  Modelled from the spec: \<open>MixerAudioSource\<close> is library code outside the source file.
  It holds the registered inputs, each with the flag given at registration; removing an
  input registered with the flag set destroys that input.
\<close>

definition registered :: "world \<Rightarrow> nat \<Rightarrow> bool" where
  "registered w x \<longleftrightarrow> x \<in> set (map fst (mixer w))"

definition addInputSource :: "world \<Rightarrow> nat \<Rightarrow> bool \<Rightarrow> world" where
  "addInputSource w x deleteWhenRemoved =
     (if registered w x then w else w\<lparr>mixer := mixer w @ [(x, deleteWhenRemoved)]\<rparr>)"

definition removeInputSource :: "world \<Rightarrow> nat \<Rightarrow> lifetime_error + world" where
  "removeInputSource w x =
     (case map_of (mixer w) x of
        None \<Rightarrow> Inr w
      | Some deleteWhenRemoved \<Rightarrow>
          (let w1 = w\<lparr>mixer := filter (\<lambda>entry. fst entry \<noteq> x) (mixer w)\<rparr>
           in if deleteWhenRemoved then delete_session w1 x else Inr w1))"

fun delete_inputs :: "world \<Rightarrow> (nat \<times> bool) list \<Rightarrow> lifetime_error + world" where
  "delete_inputs w [] = Inr w"
| "delete_inputs w ((x, deleteWhenRemoved) # es) =
     and_then (if deleteWhenRemoved then delete_session w x else Inr w)
       (\<lambda>w1. delete_inputs w1 es)"

definition removeAllInputs :: "world \<Rightarrow> lifetime_error + world" where
  "removeAllInputs w = delete_inputs (w\<lparr>mixer := []\<rparr>) (mixer w)"

subsection \<open>AutoRemovingTransportSource\<close>

text \<open>
  The constructor: \<open>setSource (transportSource)\<close>, \<open>prepareToPlay\<close>, \<open>start\<close>,
  \<open>mixer.addInputSource (this, true)\<close>, \<open>startTimerHz (10)\<close>. Preparing to play sets up
  audio buffers only and has no part in the model.
\<close>

definition newAutoRemovingTransportSource :: "world \<Rightarrow> nat \<Rightarrow> bool \<Rightarrow> world" where
  "newAutoRemovingTransportSource w ts ownSource =
     (let (x, w1) = alloc w (Session ts ownSource None False);
          w2 = attachSource w1 x ts;
          w3 = startTransport w2 x
      in addInputSource w3 x True)"

text \<open>
  \<open>timerCallback\<close>: a session whose transport is not playing removes itself from the
  mixer. Only a live session has a timer.
\<close>

definition timerCallback :: "world \<Rightarrow> nat \<Rightarrow> lifetime_error + world" where
  "timerCallback w x =
     (case obj_at w x of
        Some (Session ts own src0 playing) \<Rightarrow>
          (if obj_at w ts = None then Inl UseAfterFree
           else if \<not> isPlaying w ts then removeInputSource w x else Inr w)
      | _ \<Rightarrow> Inr w)"

subsection \<open>SoundPlayer\<close>

definition is_transport :: "obj \<Rightarrow> bool" where
  "is_transport ob =
     (case ob of Transport src0 owned playing \<Rightarrow> True
      | Session ts own src0 playing \<Rightarrow> True | _ \<Rightarrow> False)"

text \<open>\<open>play (PositionableAudioSource*, bool deleteWhenFinished, double fileSampleRate)\<close>.\<close>

definition play_source :: "world \<Rightarrow> nat option \<Rightarrow> bool \<Rightarrow> real \<Rightarrow> lifetime_error + world" where
  "play_source w audioSource deleteWhenFinished fileSampleRate =
     (case audioSource of
        Some a \<Rightarrow>
          (case obj_at w a of
             None \<Rightarrow> Inl UseAfterFree
           | Some ob \<Rightarrow>
               (let (transport, own, w1) =
                      (if is_transport ob then (a, deleteWhenFinished, w)
                       else if deleteWhenFinished
                       then (let (t, w0) = alloc w (Transport None (Some a) False)
                             in (t, deleteWhenFinished, attachSource w0 t a))
                       else (let (t, w0) = alloc w (Transport None None False)
                             in (t, True, attachSource w0 t a)));
                    w2 = startTransport w1 transport
                in Inr (newAutoRemovingTransportSource w2 transport own)))
      | None \<Rightarrow> Inr w)"

text \<open>\<open>play (AudioFormatReader*, bool deleteWhenFinished)\<close>; it reads \<open>reader->sampleRate\<close>.\<close>

definition play_reader :: "world \<Rightarrow> nat option \<Rightarrow> bool \<Rightarrow> lifetime_error + world" where
  "play_reader w reader deleteWhenFinished =
     (case reader of
        Some r \<Rightarrow>
          (case obj_at w r of
             Some (Reader rate) \<Rightarrow>
               (let (s, w1) = alloc w (PlainSource (Some (r, deleteWhenFinished)))
                in play_source w1 (Some s) True rate)
           | _ \<Rightarrow> Inl UseAfterFree)
      | None \<Rightarrow> Inr w)"

text \<open>
  \<open>play (AudioBuffer<float>*, bool deleteWhenFinished, bool playOnAllOutputChannels)\<close>.
  The call leaves the sample rate argument to its default, taken to be 0.
\<close>

definition play_buffer :: "world \<Rightarrow> nat option \<Rightarrow> bool \<Rightarrow> bool \<Rightarrow> lifetime_error + world" where
  "play_buffer w buf deleteWhenFinished playOnAllOutputChannels =
     (case buf of
        Some b \<Rightarrow>
          (let (s, w1) = alloc w (PlainSource (Some (b, deleteWhenFinished)))
           in play_source w1 (Some s) True 0)
      | None \<Rightarrow> Inr w)"

text \<open>
  The format manager is a collaborator: \<open>createReaderFor\<close> is a parameter that gives,
  for the data of a file or of a memory block, the sample rate of the reader it creates,
  or \<open>None\<close> for the null reader of data it cannot decode.
\<close>

definition play_decoded :: "('d \<Rightarrow> real option) \<Rightarrow> world \<Rightarrow> 'd \<Rightarrow> lifetime_error + world" where
  "play_decoded createReaderFor w dat =
     (case createReaderFor dat of
        None \<Rightarrow> play_reader w None True
      | Some rate \<Rightarrow> (let (r, w1) = alloc w (Reader rate) in play_reader w1 (Some r) True))"

record 'd audio_file =
  existsAsFile :: bool
  fileData :: 'd

definition play_file :: "('d \<Rightarrow> real option) \<Rightarrow> world \<Rightarrow> 'd audio_file \<Rightarrow> lifetime_error + world" where
  "play_file createReaderFor w f =
     (if existsAsFile f then play_decoded createReaderFor w (fileData f) else Inr w)"

text \<open>\<open>play (const void* resourceData, size_t resourceSize)\<close>: \<open>None\<close> is the null pointer.\<close>

definition play_bytes ::
  "('d \<Rightarrow> real option) \<Rightarrow> world \<Rightarrow> 'd option \<Rightarrow> nat \<Rightarrow> lifetime_error + world" where
  "play_bytes createReaderFor w resourceData resourceSize =
     (case resourceData of
        Some dat \<Rightarrow>
          (if resourceSize > 0 then play_decoded createReaderFor w dat else Inr w)
      | None \<Rightarrow> Inr w)"

text \<open>\<open>playTestSound\<close> allocates a mono buffer, fills it and plays it, ceding ownership.\<close>

definition playTestSound :: "world \<Rightarrow> lifetime_error + world" where
  "playTestSound w = (let (b, w1) = alloc w Buffer in play_buffer w1 (Some b) True True)"

text \<open>
  The device callbacks. \<open>audioDeviceAboutToStart\<close> caches the rate and block size of a
  device that is not null. The audio callback pulls the mixer; the transports that
  reach their end in that block are given with the callback and stop playing.
\<close>

definition audioDeviceAboutToStart :: "world \<Rightarrow> (real \<times> int) option \<Rightarrow> world" where
  "audioDeviceAboutToStart w device =
     (case device of
        Some (rate, blockSize) \<Rightarrow> w\<lparr>sampleRate := rate, bufferSize := blockSize\<rparr>
      | None \<Rightarrow> w)"

definition audioDeviceIOCallback :: "world \<Rightarrow> nat list \<Rightarrow> world" where
  "audioDeviceIOCallback w finished = fold (\<lambda>t w1. set_playing w1 t False) finished w"

text \<open>\<open>~SoundPlayer\<close>: \<open>mixer.removeAllInputs()\<close>, then the player lets go of the mixer.\<close>

definition deleteSoundPlayer :: "world \<Rightarrow> lifetime_error + world" where
  "deleteSoundPlayer w = removeAllInputs w"

subsection \<open>Everything that can happen to a player\<close>

datatype 'd event =
    PlayFile "'d audio_file"
  | PlayBytes "'d option" nat
  | PlayReader "nat option" bool
  | PlayBuffer "nat option" bool bool
  | PlaySource "nat option" bool real
  | PlayTestSound
  | AboutToStart "(real \<times> int) option"
  | IOCallback "nat list"
  | DeviceStopped
  | DeviceError
  | TimerTick nat
  | DeletePlayer

definition step ::
  "('d \<Rightarrow> real option) \<Rightarrow> world \<Rightarrow> 'd event \<Rightarrow> lifetime_error + world" where
  "step createReaderFor w ev =
     (case ev of
        PlayFile f \<Rightarrow> play_file createReaderFor w f
      | PlayBytes resourceData resourceSize \<Rightarrow>
          play_bytes createReaderFor w resourceData resourceSize
      | PlayReader reader deleteWhenFinished \<Rightarrow> play_reader w reader deleteWhenFinished
      | PlayBuffer buf deleteWhenFinished fanOut \<Rightarrow> play_buffer w buf deleteWhenFinished fanOut
      | PlaySource audioSource deleteWhenFinished rate \<Rightarrow>
          play_source w audioSource deleteWhenFinished rate
      | PlayTestSound \<Rightarrow> playTestSound w
      | AboutToStart device \<Rightarrow> Inr (audioDeviceAboutToStart w device)
      | IOCallback finished \<Rightarrow> Inr (audioDeviceIOCallback w finished)
      | DeviceStopped \<Rightarrow> Inr w
      | DeviceError \<Rightarrow> Inr w
      | TimerTick x \<Rightarrow> timerCallback w x
      | DeletePlayer \<Rightarrow> deleteSoundPlayer w)"

subsection \<open>What a teardown needs and what it leaves in the trace\<close>

definition resource_live :: "world \<Rightarrow> nat \<Rightarrow> bool" where
  "resource_live w r =
     (case obj_at w r of Some Buffer \<Rightarrow> True | Some (Reader rate) \<Rightarrow> True | _ \<Rightarrow> False)"

definition source_ready :: "world \<Rightarrow> nat \<Rightarrow> bool" where
  "source_ready w s =
     (case obj_at w s of
        Some (PlainSource (Some (r, True))) \<Rightarrow> resource_live w r
      | Some (PlainSource res) \<Rightarrow> True
      | _ \<Rightarrow> False)"

definition transport_ready :: "world \<Rightarrow> nat \<Rightarrow> bool" where
  "transport_ready w t =
     (case obj_at w t of
        Some (Transport src0 owned playing) \<Rightarrow>
          (case src0 of Some s \<Rightarrow> obj_at w s \<noteq> None | None \<Rightarrow> True)
          \<and> (case owned of Some s \<Rightarrow> source_ready w s | None \<Rightarrow> True)
      | _ \<Rightarrow> False)"

definition session_ready :: "world \<Rightarrow> nat \<Rightarrow> bool" where
  "session_ready w x =
     (case obj_at w x of
        Some (Session ts own src0 playing) \<Rightarrow>
          (src0 = None \<or> src0 = Some ts)
          \<and> (case obj_at w ts of Some (Transport a owned pl) \<Rightarrow> True | _ \<Rightarrow> False)
          \<and> (if own then transport_ready w ts else True)
      | _ \<Rightarrow> False)"

definition source_teardown :: "world \<Rightarrow> nat \<Rightarrow> teardown list" where
  "source_teardown w s =
     (case obj_at w s of
        Some (PlainSource (Some (r, True))) \<Rightarrow> [Destroyed r, Destroyed s]
      | _ \<Rightarrow> [Destroyed s])"

definition transport_teardown :: "world \<Rightarrow> nat \<Rightarrow> teardown list" where
  "transport_teardown w t =
     (case obj_at w t of
        Some (Transport src0 owned playing) \<Rightarrow>
          (case src0 of Some s \<Rightarrow> [Detached t s] | None \<Rightarrow> [])
          @ (case owned of Some s \<Rightarrow> source_teardown w s | None \<Rightarrow> [])
          @ [Destroyed t]
      | _ \<Rightarrow> [])"

definition session_teardown :: "world \<Rightarrow> nat \<Rightarrow> teardown list" where
  "session_teardown w x =
     (case obj_at w x of
        Some (Session ts own src0 playing) \<Rightarrow>
          (case src0 of Some s \<Rightarrow> [Detached x s] | None \<Rightarrow> [])
          @ (if own then transport_teardown w ts else [])
          @ [Destroyed x]
      | _ \<Rightarrow> [])"

text \<open>The transport a session polls.\<close>

definition session_transport_playing :: "world \<Rightarrow> nat \<Rightarrow> bool" where
  "session_transport_playing w x =
     (case obj_at w x of
        Some (Session ts own src0 playing) \<Rightarrow> isPlaying w ts
      | _ \<Rightarrow> False)"

text \<open>A world with one source of the caller at address 0 and one buffer at address 1.\<close>

definition studio :: world where
  "studio = newSoundPlayer [Some (PlainSource None), Some Buffer]"

subsection \<open>Frames and example worlds\<close>

text \<open>What a teardown leaves alone: the mixer, the cached rate and block size, the store's size.\<close>

definition same_player :: "world \<Rightarrow> world \<Rightarrow> bool" where
  "same_player w w' \<longleftrightarrow> mixer w' = mixer w \<and> sampleRate w' = sampleRate w
     \<and> bufferSize w' = bufferSize w \<and> length (heap w') = length (heap w)"

definition silent_file :: "nat audio_file" where
  "silent_file = \<lparr>existsAsFile = False, fileData = 0\<rparr>"

text \<open>
  The studio after \<open>play\<close> of the source at address 0 with ownership ceded and after
  its transport has finished; and the same after the session's next timer tick.
\<close>

definition finished_studio :: world where
  "finished_studio =
     \<lparr>heap = [Some (PlainSource None), Some Buffer,
              Some (Transport (Some 0) (Some 0) False), Some (Session 2 True (Some 2) True)],
      mixer = [(3, True)], sampleRate = 44100, bufferSize = 512, trace = []\<rparr>"

definition emptied_studio :: world where
  "emptied_studio =
     \<lparr>heap = [None, Some Buffer, None, None],
      mixer = [], sampleRate = 44100, bufferSize = 512,
      trace = [Detached 3 2, Detached 2 0, Destroyed 0, Destroyed 2, Destroyed 3]\<rparr>"

section \<open>Integer and list facts\<close>

lemma to_int_id: "is_int x \<Longrightarrow> to_int x = x"
  by (simp add: is_int_def to_int_def)

lemma to_int_le: "0 \<le> x \<Longrightarrow> to_int x \<le> x"
proof -
  assume x: "0 \<le> x"
  have "(x + 2147483648) mod 4294967296 \<le> x + 2147483648"
    using x by (intro zmod_le_nonneg_dividend) simp
  then show ?thesis by (simp add: to_int_def)
qed

lemma jmin_min: "jmin a b = min a b"
  by (simp add: jmin_def min_def)

lemma jmax_max: "jmax a b = max a b"
  by (simp add: jmax_def max_def)

lemma cpp_rem_nonneg: "0 \<le> a \<Longrightarrow> 0 < b \<Longrightarrow> cpp_rem a b = a mod b"
  by (cases "a = 0") (simp_all add: cpp_rem_def)

lemma length_overwrite:
  "start + length xs \<le> length dst \<Longrightarrow> length (overwrite dst start xs) = length dst"
  by (simp add: overwrite_def)

lemma nth_overwrite:
  "start + length xs \<le> length dst \<Longrightarrow> i < length dst \<Longrightarrow>
   overwrite dst start xs ! i =
     (if start \<le> i \<and> i < start + length xs then xs ! (i - start) else dst ! i)"
  by (auto simp: overwrite_def nth_append)

lemma wf_buffer_chan_length:
  "wf_buffer b \<Longrightarrow> i < length (chans b) \<Longrightarrow> int (length (chans b ! i)) = frames b"
  by (simp add: wf_buffer_def list_all_length)

section \<open>The loop region\<close>

lemma setLoopRange_ok:
  assumes "1 \<le> getNumSamples (buffer st)" "is_int (getNumSamples (buffer st))"
  shows "loop_range_ok (setLoopRange st a b)"
proof -
  let ?L = "getNumSamples (buffer st)"
  have L1: "sub32 ?L 1 = ?L - 1"
    using assms by (simp add: sub32_def to_int_id is_int_def)
  define s where "s = max 0 (min (to_int a) (?L - 1))"
  have s: "0 \<le> s" "s \<le> ?L - 1" using assms by (auto simp: s_def)
  have Ls: "sub32 ?L s = ?L - s"
    using assms s by (simp add: sub32_def to_int_id is_int_def)
  show ?thesis
    using s assms
    by (simp add: loop_range_ok_def setLoopRange_def Let_def jmin_min jmax_max L1 Ls
        s_def [symmetric])
qed

lemma setLoopRange_buffer: "buffer (setLoopRange st a b) = buffer st"
  by (simp add: setLoopRange_def Let_def)

lemma setLoopRanges_buffer: "buffer (setLoopRanges st cs) = buffer st"
  by (induction st cs rule: setLoopRanges.induct) (simp_all add: setLoopRange_buffer)

lemma setLoopRanges_ok:
  assumes "1 \<le> getNumSamples (buffer st)" "is_int (getNumSamples (buffer st))"
  shows "cs \<noteq> [] \<or> loop_range_ok st \<Longrightarrow> loop_range_ok (setLoopRanges st cs)"
  using assms
proof (induction st cs rule: setLoopRanges.induct)
  case (1 st)
  then show ?case by simp
next
  case (2 st a b cs)
  have "loop_range_ok (setLoopRange st a b)"
    using "2.prems" by (simp add: setLoopRange_ok)
  then show ?case
    using "2.IH" "2.prems" by (simp add: setLoopRange_buffer)
qed

text \<open>
  C4, as amended. On a buffer of length \<open>L \<ge> 1\<close>, after any non-empty sequence of
  \<open>setLoopRange\<close> calls, with any starts and lengths, the stored region satisfies
  \<open>0 \<le> loopStart \<le> L - 1\<close> and \<open>1 \<le> loopLength \<le> L - loopStart\<close>, hence
  \<open>loopStart + loopLength \<le> L\<close>. The call is a total function: it clamps and has no
  error result.
\<close>

theorem setLoopRange_clamps:
  assumes "1 \<le> getNumSamples (buffer st)" and "is_int (getNumSamples (buffer st))"
    and "cs \<noteq> []" and "st' = setLoopRanges st cs"
  shows "0 \<le> loopStartPos st' \<and> loopStartPos st' \<le> getNumSamples (buffer st') - 1
     \<and> 1 \<le> loopLen st' \<and> loopLen st' \<le> getNumSamples (buffer st') - loopStartPos st'
     \<and> loopStartPos st' + loopLen st' \<le> getNumSamples (buffer st')"
proof -
  have "loop_range_ok st'"
    using assms setLoopRanges_ok [of st cs] by simp
  then show ?thesis
    by (simp add: loop_range_ok_def)
qed

theorem setLoopRange_clamps_witness:
  "1 \<le> getNumSamples (buffer ramp_source) \<and> is_int (getNumSamples (buffer ramp_source))
   \<and> [(20, 5), (- 3, 40)] \<noteq> ([] :: (int \<times> int) list)
   \<and> loopStartPos (setLoopRanges ramp_source [(20, 5), (- 3, 40)]) = 0
   \<and> loopLen (setLoopRanges ramp_source [(20, 5), (- 3, 40)]) = 10
   \<and> loopStartPos (setLoopRanges ramp_source [(20, 5)]) = 9
   \<and> loopLen (setLoopRanges ramp_source [(20, 5)]) = 1"
  using setLoopRange_clamps [of ramp_source "[(20, 5), (- 3, 40)]", OF _ _ _ refl]
  by (simp add: ramp_source_def newAudioBufferSource_def getNumSamples_def is_int_def
      setLoopRange_def jmin_def jmax_def sub32_def to_int_def Let_def)

text \<open>
  C4 as stated fails on an empty buffer: with \<open>L = 0\<close> the call stores the region
  \<open>loopStart = 0\<close>, \<open>loopLength = 1\<close>, and neither \<open>loopStart \<le> L - 1\<close> nor
  \<open>loopLength \<le> L - loopStart\<close> holds.
\<close>

theorem setLoopRange_empty_buffer_counterexample:
  "\<not> (0 \<le> loopStartPos (setLoopRange empty_source 0 1)
      \<and> loopStartPos (setLoopRange empty_source 0 1)
           \<le> getNumSamples (buffer (setLoopRange empty_source 0 1)) - 1
      \<and> 1 \<le> loopLen (setLoopRange empty_source 0 1)
      \<and> loopLen (setLoopRange empty_source 0 1)
           \<le> getNumSamples (buffer (setLoopRange empty_source 0 1))
               - loopStartPos (setLoopRange empty_source 0 1))"
  by (simp add: empty_source_def setLoopRange_def newAudioBufferSource_def getNumSamples_def
      jmin_def jmax_def to_int_def sub32_def Let_def)

text \<open>On an empty buffer every call stores the region \<open>loopStart = 0\<close>, \<open>loopLength = 1\<close>.\<close>

lemma setLoopRange_empty_buffer:
  assumes "getNumSamples (buffer st) = 0"
  shows "loopStartPos (setLoopRange st a b) = 0 \<and> loopLen (setLoopRange st a b) = 1"
proof -
  have m: "sub32 0 1 = - 1" "sub32 0 0 = 0"
    by (simp_all add: sub32_def to_int_def)
  show ?thesis
    using assms by (simp add: setLoopRange_def Let_def jmin_min jmax_max m)
qed

section \<open>Seeking\<close>

text \<open>
  C3 as stated fails for a negative position: the source asserts \<open>newPosition >= 0\<close>
  and clamps only from above, so \<open>setNextReadPosition (-5)\<close> stores \<open>-5\<close>, whether the
  source is looping or not.
\<close>

theorem setNextReadPosition_negative_counterexample:
  "setNextReadPosition ramp_source (- 5) = Inr (ramp_source\<lparr>position := - 5\<rparr>)
   \<and> setNextReadPosition (setLooping ramp_source True) (- 5)
        = Inr ((setLooping ramp_source True)\<lparr>position := - 5\<rparr>)
   \<and> \<not> (0 \<le> position (ramp_source\<lparr>position := - 5\<rparr>)
          \<and> position (ramp_source\<lparr>position := - 5\<rparr>)
               \<le> getNumSamples (buffer (ramp_source\<lparr>position := - 5\<rparr>)))"
  by (simp add: ramp_source_def setNextReadPosition_def setLooping_def newAudioBufferSource_def
      getNumSamples_def jmin_def to_int_def cpp_rem_def Let_def)

text \<open>
  Two more inputs the stored position leaves \<open>[0, totalFrames]\<close> for, or is not stored
  for: a position of \<open>2^31\<close> on a source that is not looping narrows to \<open>-2^31\<close>,
  and a looping source on an empty buffer divides by zero.
\<close>

lemma setNextReadPosition_edge_examples:
  "setNextReadPosition ramp_source 2147483648 = Inr (ramp_source\<lparr>position := - 2147483648\<rparr>)
   \<and> setNextReadPosition (setLooping empty_source True) 3 = Inl DivisionByZero"
  by (simp add: ramp_source_def empty_source_def setNextReadPosition_def setLooping_def
      newAudioBufferSource_def getNumSamples_def jmin_def to_int_def Let_def)

lemma setNextReadPosition_upper:
  "setNextReadPosition st newPosition = Inr st' \<Longrightarrow> position st' \<le> getNumSamples (buffer st')"
  by (auto simp: setNextReadPosition_def Let_def jmin_min split: if_splits)

lemma setNextReadPosition_in_range:
  assumes "0 \<le> newPosition"
    and "is_int (getNumSamples (buffer st))" and "0 \<le> getNumSamples (buffer st)"
    and "looping st \<longrightarrow> 0 < getNumSamples (buffer st)"
    and "\<not> looping st \<longrightarrow> is_int newPosition"
  shows "setNextReadPosition st newPosition =
           Inr (st\<lparr>position := (if looping st then newPosition mod getNumSamples (buffer st)
                                  else min (getNumSamples (buffer st)) newPosition)\<rparr>)
         \<and> 0 \<le> (if looping st then newPosition mod getNumSamples (buffer st)
                  else min (getNumSamples (buffer st)) newPosition)
         \<and> (if looping st then newPosition mod getNumSamples (buffer st)
                  else min (getNumSamples (buffer st)) newPosition) \<le> getNumSamples (buffer st)"
proof (cases "looping st")
  case True
  let ?L = "getNumSamples (buffer st)"
  have L: "0 < ?L" using True assms by simp
  have m: "0 \<le> newPosition mod ?L" "newPosition mod ?L < ?L"
    using L by simp_all
  have "is_int (newPosition mod ?L)"
    using m assms(2) by (simp add: is_int_def)
  then have "to_int (newPosition mod ?L) = newPosition mod ?L"
    by (rule to_int_id)
  then show ?thesis
    using True L m assms(1)
    by (simp add: setNextReadPosition_def Let_def cpp_rem_nonneg jmin_min min_def)
next
  case False
  then have "to_int newPosition = newPosition"
    using assms by (simp add: to_int_id)
  then show ?thesis
    using False assms by (simp add: setNextReadPosition_def Let_def jmin_min)
qed

text \<open>
  C3, as amended. For a requested position \<open>pos \<ge> 0\<close> (below \<open>2^31\<close> when the source
  is not looping; on a non-empty buffer when it is), \<open>setNextReadPosition\<close> changes the
  position only, and stores \<open>pos mod totalFrames\<close> when looping, the remainder by the
  whole buffer length and not by the loop region, and \<open>min totalFrames pos\<close> otherwise;
  the stored position lies in \<open>[0, totalFrames]\<close>. For every \<open>pos\<close>, negative ones
  too, a call that returns stores a position that is at most \<open>totalFrames\<close>.
\<close>

theorem setNextReadPosition_clamps:
  assumes "is_int (getNumSamples (buffer st))" and "0 \<le> getNumSamples (buffer st)"
  shows "(setNextReadPosition st anyPosition = Inr st'
            \<longrightarrow> position st' \<le> getNumSamples (buffer st'))
     \<and> (0 \<le> newPosition \<and> (looping st \<longrightarrow> 0 < getNumSamples (buffer st))
            \<and> (\<not> looping st \<longrightarrow> is_int newPosition)
          \<longrightarrow> setNextReadPosition st newPosition =
                Inr (st\<lparr>position :=
                        (if looping st then newPosition mod getNumSamples (buffer st)
                         else min (getNumSamples (buffer st)) newPosition)\<rparr>)
              \<and> 0 \<le> (if looping st then newPosition mod getNumSamples (buffer st)
                       else min (getNumSamples (buffer st)) newPosition)
              \<and> (if looping st then newPosition mod getNumSamples (buffer st)
                  else min (getNumSamples (buffer st)) newPosition)
                   \<le> getNumSamples (buffer st))"
  using setNextReadPosition_upper [of st anyPosition st']
    setNextReadPosition_in_range [of newPosition st] assms
  by blast

theorem setNextReadPosition_clamps_witness:
  "is_int (getNumSamples (buffer ramp_source)) \<and> 0 < getNumSamples (buffer ramp_source)
   \<and> (0::int) \<le> 23 \<and> is_int 23 \<and> looping (setLooping ramp_source True)
   \<and> \<not> looping ramp_source
   \<and> setNextReadPosition (setLooping ramp_source True) 23
        = Inr ((setLooping ramp_source True)\<lparr>position := 3\<rparr>)
   \<and> setNextReadPosition ramp_source 23 = Inr (ramp_source\<lparr>position := 10\<rparr>)
   \<and> position (ramp_source\<lparr>position := 10\<rparr>)
        \<le> getNumSamples (buffer (ramp_source\<lparr>position := 10\<rparr>))"
  using setNextReadPosition_clamps [of "setLooping ramp_source True" 23
      "(setLooping ramp_source True)\<lparr>position := 3\<rparr>" 23]
    setNextReadPosition_clamps [of ramp_source 23 "ramp_source\<lparr>position := 10\<rparr>" 23]
  by (simp add: ramp_source_def setLooping_def newAudioBufferSource_def getNumSamples_def
      is_int_def)

section \<open>Termination of the block fill\<close>

lemma run_length_le: "run_length st needed \<le> needed"
  by (simp add: run_length_def jmin_min)

lemma samplesNeeded_wrap_or_finish:
  "samplesNeeded (wrap_or_finish c1 n) = (if looping (src c1) then samplesNeeded c1 else 0)"
  by (simp add: wrap_or_finish_def Let_def)

lemma samplesNeeded_copy_run:
  assumes "copy_run start c n = Inr c1"
  shows "samplesNeeded c1 = (if 0 < n then sub32 (samplesNeeded c) n else 0)"
  using assms by (auto simp: copy_run_def Let_def split: if_splits sum.splits)

lemma loop_body_decreases:
  assumes "0 < samplesNeeded c" and "loop_body start c = Inr c'"
  shows "samplesNeeded c' = 0 \<or> samplesNeeded c' \<le> samplesNeeded c - 1"
proof -
  define n where "n = run_length (src c) (samplesNeeded c)"
  obtain c1 where c1: "copy_run start c n = Inr c1" and c': "c' = wrap_or_finish c1 n"
    using assms(2) by (auto simp: loop_body_def Let_def n_def split: sum.splits)
  show ?thesis
  proof (cases "0 < n")
    case True
    have "n \<le> samplesNeeded c" by (simp add: n_def run_length_le)
    then have "to_int (samplesNeeded c - n) \<le> samplesNeeded c - n"
      by (intro to_int_le) simp
    then have "samplesNeeded c1 \<le> samplesNeeded c - 1"
      using True samplesNeeded_copy_run [OF c1] by (simp add: sub32_def)
    then show ?thesis
      by (simp add: c' samplesNeeded_wrap_or_finish)
  next
    case False
    then show ?thesis
      using samplesNeeded_copy_run [OF c1] by (simp add: c' samplesNeeded_wrap_or_finish)
  qed
qed

lemma fill_loop_terminates: "\<exists>r. fill_loop start c = Some r"
proof (induction "nat (samplesNeeded c)" arbitrary: c rule: less_induct)
  case less
  show ?case
  proof (cases "0 < samplesNeeded c")
    case False
    then show ?thesis by (subst fill_loop.simps) simp
  next
    case True
    show ?thesis
    proof (cases "loop_body start c")
      case (Inl e)
      then show ?thesis using True by (subst fill_loop.simps) simp
    next
      case (Inr c')
      then have "nat (samplesNeeded c') < nat (samplesNeeded c)"
        using loop_body_decreases [OF True Inr] True by auto
      then obtain r where "fill_loop start c' = Some r"
        using less by blast
      then show ?thesis using True Inr by (subst fill_loop.simps) simp
    qed
  qed
qed

text \<open>
  C9. \<open>getNextAudioBlock\<close> returns for every state and every block, hence in
  particular for the states that satisfy the loop-range invariant: the \<open>while\<close> loop
  is a partial function whose value \<open>None\<close> would mean that it runs forever, and it is
  never \<open>None\<close>. The reason is the second conjunct: an iteration that starts with
  samples still needed either sets that counter to zero or lowers it by at least one.
\<close>

theorem getNextAudioBlock_terminates:
  "(\<exists>r. getNextAudioBlock st bufferToFill = Some r)
   \<and> (0 < samplesNeeded c \<and> loop_body start c = Inr c'
        \<longrightarrow> samplesNeeded c' = 0 \<or> samplesNeeded c' \<le> samplesNeeded c - 1)"
proof -
  have "\<exists>r. getNextAudioBlock st bufferToFill = Some r"
  proof (cases "clear_region (dest bufferToFill) (startSample bufferToFill)
                  (numSamples bufferToFill)")
    case (Inl e)
    then show ?thesis by (simp add: getNextAudioBlock_def)
  next
    case (Inr cleared)
    obtain r where "fill_loop (startSample bufferToFill)
        \<lparr>src = st, out = cleared, samplesNeeded = numSamples bufferToFill\<rparr> = Some r"
      using fill_loop_terminates by blast
    then show ?thesis
      using Inr by (cases r) (simp_all add: getNextAudioBlock_def)
  qed
  then show ?thesis
    using loop_body_decreases by blast
qed

theorem getNextAudioBlock_terminates_witness:
  "0 < samplesNeeded \<lparr>src = loop_source, out = dest (stereo_block 7), samplesNeeded = 7\<rparr>
   \<and> loop_body 1 \<lparr>src = loop_source, out = dest (stereo_block 7), samplesNeeded = 7\<rparr>
       = Inr \<lparr>src = loop_source\<lparr>position := 2\<rparr>,
              out = \<lparr>frames = 9,
                     chans = [[9, 0, 1, 2, 3, 4, 9, 9, 9], [8, 0, 1, 2, 3, 4, 8, 8, 8]]\<rparr>,
              samplesNeeded = 2\<rparr>
   \<and> (\<exists>r. getNextAudioBlock loop_source (stereo_block 7) = Some r)"
proof -
  have body: "loop_body 1 \<lparr>src = loop_source, out = dest (stereo_block 7), samplesNeeded = 7\<rparr>
       = Inr \<lparr>src = loop_source\<lparr>position := 2\<rparr>,
              out = \<lparr>frames = 9,
                     chans = [[9, 0, 1, 2, 3, 4, 9, 9, 9], [8, 0, 1, 2, 3, 4, 8, 8, 8]]\<rparr>,
              samplesNeeded = 2\<rparr>"
    by code_simp
  show ?thesis
    using body
      getNextAudioBlock_terminates [of loop_source "stereo_block 7"
        "\<lparr>src = loop_source, out = dest (stereo_block 7), samplesNeeded = 7\<rparr>" 1
        "\<lparr>src = loop_source\<lparr>position := 2\<rparr>,
              out = \<lparr>frames = 9,
                     chans = [[9, 0, 1, 2, 3, 4, 9, 9, 9], [8, 0, 1, 2, 3, 4, 8, 8, 8]]\<rparr>,
              samplesNeeded = 2\<rparr>"]
    by simp
qed

section \<open>What \<open>setLoopRange\<close> leaves alone\<close>

lemma shrink_example:
  "setNextReadPosition (setLooping ramp_source True) 3 = Inr seeked_source
   \<and> position (setLoopRange seeked_source 0 3) = 3
   \<and> loopStartPos (setLoopRange seeked_source 0 3) = 0
   \<and> loopLen (setLoopRange seeked_source 0 3) = 3
   \<and> getNextAudioBlock (setLoopRange seeked_source 0 3) (stereo_block 2)
       = Some (Inr ((setLoopRange seeked_source 0 3)\<lparr>position := 2\<rparr>,
                    \<lparr>frames = 4, chans = [[9, 0, 0, 9], [8, 0, 0, 8]]\<rparr>))"
  by code_simp

text \<open>
  C10. \<open>setLoopRange\<close> changes the stored loop start and loop length and nothing else:
  the read position, the looping flag, the fan-out flag, the buffer and its ownership
  flag are those of the state before. In particular the position can be left outside
  the new region: a looping source on a 10-frame buffer that was sought to position 3
  keeps position 3 when the region shrinks to \<open>[0, 3)\<close>, and the next block fill, of
  2 samples, wraps it to position 2 inside the region.
\<close>

theorem setLoopRange_frame:
  "position (setLoopRange st a b) = position st
   \<and> looping (setLoopRange st a b) = looping st
   \<and> playAcrossAllChannels (setLoopRange st a b) = playAcrossAllChannels st
   \<and> buffer (setLoopRange st a b) = buffer st
   \<and> ownBuffer (setLoopRange st a b) = ownBuffer st
   \<and> setLoopRange st a b = st\<lparr>loopStartPos := loopStartPos (setLoopRange st a b),
                               loopLen := loopLen (setLoopRange st a b)\<rparr>
   \<and> setNextReadPosition (setLooping ramp_source True) 3 = Inr seeked_source
   \<and> looping (setLoopRange seeked_source 0 3)
   \<and> \<not> (position (setLoopRange seeked_source 0 3)
          < loopStartPos (setLoopRange seeked_source 0 3) + loopLen (setLoopRange seeked_source 0 3))
   \<and> (\<exists>ob. getNextAudioBlock (setLoopRange seeked_source 0 3) (stereo_block 2)
              = Some (Inr ((setLoopRange seeked_source 0 3)\<lparr>position := 2\<rparr>, ob)))"
proof -
  have frame: "position (setLoopRange st a b) = position st
      \<and> looping (setLoopRange st a b) = looping st
      \<and> playAcrossAllChannels (setLoopRange st a b) = playAcrossAllChannels st
      \<and> buffer (setLoopRange st a b) = buffer st
      \<and> ownBuffer (setLoopRange st a b) = ownBuffer st
      \<and> setLoopRange st a b = st\<lparr>loopStartPos := loopStartPos (setLoopRange st a b),
                                  loopLen := loopLen (setLoopRange st a b)\<rparr>"
    by (simp add: setLoopRange_def Let_def)
  have "looping (setLoopRange seeked_source 0 3)"
    by (simp add: setLoopRange_def Let_def seeked_source_def setLooping_def)
  then have "setNextReadPosition (setLooping ramp_source True) 3 = Inr seeked_source
      \<and> looping (setLoopRange seeked_source 0 3)
      \<and> \<not> (position (setLoopRange seeked_source 0 3)
             < loopStartPos (setLoopRange seeked_source 0 3)
                 + loopLen (setLoopRange seeked_source 0 3))
      \<and> (\<exists>ob. getNextAudioBlock (setLoopRange seeked_source 0 3) (stereo_block 2)
                 = Some (Inr ((setLoopRange seeked_source 0 3)\<lparr>position := 2\<rparr>, ob)))"
    using shrink_example by simp
  with frame show ?thesis
    by blast
qed

section \<open>Copying a run into the output channels\<close>

lemma copy_channels_append:
  "copy_channels st start m n (xs @ ys) ob =
     (case copy_channels st start m n xs ob of Inl e \<Rightarrow> Inl e
      | Inr ob' \<Rightarrow> copy_channels st start m n ys ob')"
  by (induction xs arbitrary: ob) (auto split: sum.splits)

lemma length_piece:
  assumes "wf_buffer (buffer st)" "0 \<le> ch" "ch < getNumChannels (buffer st)"
    "0 \<le> position st" "0 \<le> n" "position st + n \<le> getNumSamples (buffer st)"
  shows "length (piece st ch n) = nat n"
proof -
  have "int (length (chans (buffer st) ! nat ch)) = frames (buffer st)"
    using assms by (intro wf_buffer_chan_length) (simp_all add: getNumChannels_def)
  then show ?thesis
    using assms by (simp add: piece_def getNumSamples_def)
qed

lemma copy_channels_upt:
  assumes "wf_buffer (buffer st)" and "wf_buffer ob"
    and "k \<le> length (chans ob)" and "0 < k \<longrightarrow> 0 < m"
    and "m = getNumChannels (buffer st)"
    and "0 \<le> start" and "0 \<le> n" and "start + n \<le> getNumSamples ob"
    and "0 \<le> position st" and "position st + n \<le> getNumSamples (buffer st)"
  shows "\<exists>ob'. copy_channels st start m n [0 ..< k] ob = Inr ob'
           \<and> wf_buffer ob' \<and> frames ob' = frames ob
           \<and> length (chans ob') = length (chans ob)
           \<and> (\<forall>i < length (chans ob). chans ob' ! i =
                 (if i < k then overwrite (chans ob ! i) (nat start) (piece st (int i mod m) n)
                  else chans ob ! i))"
  using assms(3,4)
proof (induction k)
  case 0
  then show ?case using assms(2) by simp
next
  case (Suc k)
  then obtain o1 where o1: "copy_channels st start m n [0 ..< k] ob = Inr o1"
    "wf_buffer o1" "frames o1 = frames ob" "length (chans o1) = length (chans ob)"
    "\<forall>i < length (chans ob). chans o1 ! i =
        (if i < k then overwrite (chans ob ! i) (nat start) (piece st (int i mod m) n)
         else chans ob ! i)"
    by auto
  have m: "0 < m" using Suc.prems by simp
  have k: "k < length (chans ob)" using Suc.prems by simp
  have ch: "0 \<le> int k mod m" "int k mod m < getNumChannels (buffer st)"
    using m assms(5) by simp_all
  have lp: "length (piece st (int k mod m) n) = nat n"
    using assms ch by (intro length_piece) simp_all
  have lk: "int (length (chans o1 ! k)) = frames ob"
    using o1 k wf_buffer_chan_length [of o1 k] by simp
  define o2 where "o2 = o1\<lparr>chans := (chans o1)[k :=
      overwrite (chans o1 ! k) (nat start) (piece st (int k mod m) n)]\<rparr>"
  have step: "copyFrom o1 (int k) start (buffer st) (int k mod m) (position st) n = Inr o2"
    using assms(6-10) ch k o1(3,4)
    by (simp add: copyFrom_def o2_def piece_def getNumChannels_def getNumSamples_def)
  have lo: "length (overwrite (chans o1 ! k) (nat start) (piece st (int k mod m) n))
              = length (chans o1 ! k)"
  proof (rule length_overwrite)
    have "int (nat start + nat n) \<le> frames ob"
      using assms(6-8) by (simp add: getNumSamples_def)
    then show "nat start + length (piece st (int k mod m) n) \<le> length (chans o1 ! k)"
      using lk lp by linarith
  qed
  have "int (length ((chans o2) ! i)) = frames o2" if "i < length (chans o2)" for i
  proof (cases "i = k")
    case True
    then show ?thesis using that lo lk o1(3) by (simp add: o2_def)
  next
    case False
    then show ?thesis
      using that wf_buffer_chan_length [OF o1(2), of i] by (simp add: o2_def)
  qed
  then have wf2: "wf_buffer o2"
    using o1(2) by (simp add: wf_buffer_def list_all_length) (simp add: o2_def)
  have run: "copy_channels st start m n [0 ..< Suc k] ob = Inr o2"
    using o1(1) step m by (simp add: copy_channels_append)
  have nth2: "\<forall>i < length (chans ob). chans o2 ! i =
        (if i < Suc k then overwrite (chans ob ! i) (nat start) (piece st (int i mod m) n)
         else chans ob ! i)"
    using o1(4,5) k by (auto simp: o2_def nth_list_update less_Suc_eq)
  show ?case
    using run wf2 nth2 o1(3,4) by (simp add: o2_def)
qed

section \<open>One iteration of the loop\<close>

lemma copy_run_skips:
  "n \<le> 0 \<Longrightarrow> copy_run start c n =
     Inr \<lparr>src = (src c)\<lparr>position := add32 (position (src c)) (samplesNeeded c)\<rparr>,
          out = out c, samplesNeeded = 0\<rparr>"
  by (simp add: copy_run_def Let_def)

lemma copy_run_copies:
  assumes "wf_buffer (buffer (src c))" and "wf_buffer (out c)"
    and "0 < n" and "n \<le> samplesNeeded c" and "is_int (samplesNeeded c)"
    and "0 \<le> start" and "start + n \<le> getNumSamples (out c)"
    and "0 \<le> position (src c)" and "position (src c) + n \<le> getNumSamples (buffer (src c))"
    and "playAcrossAllChannels (src c) \<and> 0 < getNumChannels (out c)
           \<longrightarrow> 0 < getNumChannels (buffer (src c))"
  shows "\<exists>ob'. run_written (src c) start n (out c) ob'
           \<and> copy_run start c n =
               Inr \<lparr>src = (src c)\<lparr>position := position (src c) + n\<rparr>,
                    out = ob', samplesNeeded = samplesNeeded c - n\<rparr>"
proof -
  let ?st = "src c"
  let ?m = "getNumChannels (buffer ?st)"
  let ?k = "out_channels ?st (out c)"
  have k1: "?k \<le> length (chans (out c))"
    by (auto simp: out_channels_def jmin_min getNumChannels_def min_def)
  have k2: "0 < ?k \<longrightarrow> 0 < ?m"
    using assms(10) by (auto simp: out_channels_def jmin_min getNumChannels_def min_def split: if_splits)
  obtain ob' where ob': "copy_channels ?st start ?m n [0 ..< ?k] (out c) = Inr ob'"
    "wf_buffer ob'" "frames ob' = frames (out c)" "length (chans ob') = length (chans (out c))"
    "\<forall>i < length (chans (out c)). chans ob' ! i =
        (if i < ?k then overwrite (chans (out c) ! i) (nat start) (piece ?st (int i mod ?m) n)
         else chans (out c) ! i)"
    using copy_channels_upt [OF assms(1,2) k1 k2 refl assms(6) _ assms(7,8,9)] assms(3)
    by auto
  have L: "is_int (getNumSamples (buffer ?st))"
    using assms(1) by (simp add: wf_buffer_def getNumSamples_def)
  have "is_int (position ?st + n)"
    using L assms(3,8,9) by (simp add: is_int_def)
  then have p: "add32 (position ?st) n = position ?st + n"
    by (simp add: add32_def to_int_id)
  have "is_int (samplesNeeded c - n)"
    using assms(3,4,5) by (simp add: is_int_def)
  then have s: "sub32 (samplesNeeded c) n = samplesNeeded c - n"
    by (simp add: sub32_def to_int_id)
  have "copy_run start c n =
          Inr \<lparr>src = ?st\<lparr>position := position ?st + n\<rparr>,
               out = ob', samplesNeeded = samplesNeeded c - n\<rparr>"
    using ob'(1) assms(3) p s by (simp add: copy_run_def Let_def out_channels_def)
  moreover have "run_written ?st start n (out c) ob'"
    using ob'(2-5) by (simp add: run_written_def)
  ultimately show ?thesis by blast
qed

lemma run_length_looping:
  assumes "looping st" and "is_int (getNumSamples (buffer st))"
    and "0 \<le> loopStartPos st" and "0 \<le> loopLen st"
    and "loopStartPos st + loopLen st \<le> getNumSamples (buffer st)"
    and "0 \<le> position st" and "position st \<le> loopStartPos st + loopLen st"
  shows "run_length st needed = min (loopStartPos st + loopLen st - position st) needed"
proof -
  have "is_int (loopStartPos st + loopLen st)"
    using assms by (simp add: is_int_def)
  then have e: "add32 (loopStartPos st) (loopLen st) = loopStartPos st + loopLen st"
    by (simp add: add32_def to_int_id)
  have "is_int (loopStartPos st + loopLen st - position st)"
    using assms by (simp add: is_int_def)
  then have "sub32 (loopStartPos st + loopLen st) (position st)
               = loopStartPos st + loopLen st - position st"
    by (simp add: sub32_def to_int_id)
  then show ?thesis
    using assms(1) e by (simp add: run_length_def jmin_min min.commute)
qed

lemma wrap_looping:
  assumes "looping (src c1)" and "is_int (getNumSamples (buffer (src c1)))"
    and "0 \<le> loopStartPos (src c1)" and "0 \<le> loopLen (src c1)"
    and "loopStartPos (src c1) + loopLen (src c1) \<le> getNumSamples (buffer (src c1))"
    and "0 \<le> position (src c1)"
    and "position (src c1) \<le> loopStartPos (src c1) + loopLen (src c1)"
  shows "wrap_or_finish c1 n =
           c1\<lparr>src := (src c1)\<lparr>position :=
                 (if position (src c1) = loopStartPos (src c1) + loopLen (src c1)
                  then loopStartPos (src c1) else position (src c1))\<rparr>\<rparr>"
proof -
  let ?st = "src c1"
  have "is_int (loopStartPos ?st + loopLen ?st)"
    using assms by (simp add: is_int_def)
  then have e: "add32 (loopStartPos ?st) (loopLen ?st) = loopStartPos ?st + loopLen ?st"
    by (simp add: add32_def to_int_id)
  have "is_int (position ?st - (loopStartPos ?st + loopLen ?st))"
    using assms by (simp add: is_int_def)
  then have d: "sub32 (position ?st) (loopStartPos ?st + loopLen ?st)
               = position ?st - (loopStartPos ?st + loopLen ?st)"
    by (simp add: sub32_def to_int_id)
  have "is_int (loopStartPos ?st)"
    using assms by (simp add: is_int_def)
  then have s: "add32 (loopStartPos ?st) 0 = loopStartPos ?st"
    by (simp add: add32_def to_int_id)
  show ?thesis
  proof (cases "position ?st = loopStartPos ?st + loopLen ?st")
    case True
    then show ?thesis
      using assms(1) e d s by (simp add: wrap_or_finish_def Let_def)
  next
    case False
    then have "position ?st - (loopStartPos ?st + loopLen ?st) < 0"
      using assms(7) by simp
    then show ?thesis
      using assms(1) e d False by (simp add: wrap_or_finish_def Let_def)
  qed
qed

section \<open>The loop of a looping source\<close>

lemma fill_loop_looping:
  fixes st0 :: "'a AudioBufferSource" and P :: "'a AudioBuffer \<Rightarrow> bool"
  assumes lp: "looping st0" and wfb: "wf_buffer (buffer st0)"
    and s0: "0 \<le> loopStartPos st0" and l1: "1 \<le> loopLen st0"
    and eL: "loopStartPos st0 + loopLen st0 \<le> getNumSamples (buffer st0)"
    and st: "0 \<le> start"
    and pres: "\<And>p n ob ob'. \<lbrakk>P ob; wf_buffer ob; 0 \<le> p; 0 < n; n \<le> N;
                 p + n \<le> getNumSamples (buffer st0); start + n \<le> getNumSamples ob;
                 run_written (st0\<lparr>position := p\<rparr>) start n ob ob'\<rbrakk> \<Longrightarrow> P ob'"
  shows "\<lbrakk>src c = st0\<lparr>position := p\<rparr>; 0 \<le> p; p < loopStartPos st0 + loopLen st0;
          wf_buffer (out c); 0 \<le> samplesNeeded c; samplesNeeded c \<le> N;
          start + N \<le> getNumSamples (out c);
          playAcrossAllChannels st0 \<and> 0 < getNumChannels (out c)
             \<longrightarrow> 0 < getNumChannels (buffer st0);
          P (out c)\<rbrakk>
     \<Longrightarrow> \<exists>c' p'. fill_loop start c = Some (Inr c') \<and> P (out c') \<and> wf_buffer (out c')
           \<and> frames (out c') = frames (out c)
           \<and> length (chans (out c')) = length (chans (out c))
           \<and> src c' = st0\<lparr>position := p'\<rparr>
           \<and> p' < loopStartPos st0 + loopLen st0 \<and> min p (loopStartPos st0) \<le> p'
           \<and> (loopStartPos st0 \<le> p \<or> loopStartPos st0 + loopLen st0 \<le> p + samplesNeeded c
                 \<longrightarrow> loopStartPos st0 \<le> p')
           \<and> (p + samplesNeeded c < loopStartPos st0 + loopLen st0
                 \<longrightarrow> p' = p + samplesNeeded c)"
proof (induction "nat (samplesNeeded c)" arbitrary: c p rule: less_induct)
  case less
  let ?s = "loopStartPos st0" and ?e = "loopStartPos st0 + loopLen st0"
  let ?need = "samplesNeeded c"
  show ?case
  proof (cases "0 < ?need")
    case False
    then have z: "?need = 0" using less.prems by simp
    have "fill_loop start c = Some (Inr c)"
      using z by (subst fill_loop.simps) simp
    then show ?thesis
      using less.prems z by auto
  next
    case True
    define n where "n = min (?e - p) ?need"
    have n: "0 < n" "n \<le> ?need" "p + n \<le> ?e"
      using True less.prems(3) by (auto simp: n_def)
    have Lint: "is_int (getNumSamples (buffer st0))"
      using wfb by (simp add: wf_buffer_def getNumSamples_def)
    have oint: "is_int (getNumSamples (out c))"
      using less.prems(4) by (simp add: wf_buffer_def getNumSamples_def)
    have nint: "is_int ?need"
      using less.prems(5,6,7) st oint by (simp add: is_int_def)
    have rl: "run_length (src c) ?need = n"
      using run_length_looping [of "src c" ?need] less.prems(1,2,3) lp Lint s0 l1 eL
      by (simp add: n_def)
    obtain ob' where rw: "run_written (src c) start n (out c) ob'"
      and cr: "copy_run start c n =
                Inr \<lparr>src = (src c)\<lparr>position := position (src c) + n\<rparr>,
                     out = ob', samplesNeeded = ?need - n\<rparr>"
      using copy_run_copies [of c n start] less.prems wfb n nint st eL
      by auto
    define c1 where "c1 = \<lparr>src = (src c)\<lparr>position := position (src c) + n\<rparr>,
                     out = ob', samplesNeeded = ?need - n\<rparr>"
    define p2 where "p2 = (if p + n = ?e then ?s else p + n)"
    have src1: "src c1 = st0\<lparr>position := p + n\<rparr>"
      using less.prems(1) by (simp add: c1_def)
    have w: "wrap_or_finish c1 n = c1\<lparr>src := st0\<lparr>position := p2\<rparr>\<rparr>"
      using wrap_looping [of c1 n] src1 lp Lint s0 l1 eL n less.prems(2)
      by (simp add: p2_def)
    define c2 where "c2 = c1\<lparr>src := st0\<lparr>position := p2\<rparr>\<rparr>"
    have body: "loop_body start c = Inr c2"
      using rl cr w by (simp add: loop_body_def Let_def c1_def c2_def)
    have ob: "wf_buffer ob'" "frames ob' = frames (out c)"
      "length (chans ob') = length (chans (out c))"
      using rw by (simp_all add: run_written_def)
    have Pob: "P ob'"
    proof (rule pres [of "out c" p n])
      show "P (out c)" "wf_buffer (out c)" "0 \<le> p" "0 < n"
        using less.prems n by simp_all
      show "n \<le> N" using n less.prems(6) by simp
      show "p + n \<le> getNumSamples (buffer st0)" using n eL by simp
      show "start + n \<le> getNumSamples (out c)" using n less.prems(6,7) by simp
      show "run_written (st0\<lparr>position := p\<rparr>) start n (out c) ob'"
        using rw less.prems(1) by simp
    qed
    have p2: "0 \<le> p2" "p2 < ?e" "min p ?s \<le> p2"
      using n less.prems(2) s0 l1 by (auto simp: p2_def)
    have "\<exists>c' p'. fill_loop start c2 = Some (Inr c') \<and> P (out c') \<and> wf_buffer (out c')
           \<and> frames (out c') = frames (out c2)
           \<and> length (chans (out c')) = length (chans (out c2))
           \<and> src c' = st0\<lparr>position := p'\<rparr>
           \<and> p' < ?e \<and> min p2 ?s \<le> p'
           \<and> (?s \<le> p2 \<or> ?e \<le> p2 + samplesNeeded c2 \<longrightarrow> ?s \<le> p')
           \<and> (p2 + samplesNeeded c2 < ?e \<longrightarrow> p' = p2 + samplesNeeded c2)"
    proof (rule less.hyps)
      show "nat (samplesNeeded c2) < nat ?need"
        using n True by (simp add: c2_def c1_def)
      show "src c2 = st0\<lparr>position := p2\<rparr>" by (simp add: c2_def)
      show "0 \<le> p2" "p2 < ?e" using p2 by simp_all
      show "wf_buffer (out c2)" using ob by (simp add: c2_def c1_def)
      show "0 \<le> samplesNeeded c2" using n by (simp add: c2_def c1_def)
      show "samplesNeeded c2 \<le> N" using n less.prems(6) by (simp add: c2_def c1_def)
      show "start + N \<le> getNumSamples (out c2)"
        using less.prems(7) ob by (simp add: c2_def c1_def getNumSamples_def)
      show "playAcrossAllChannels st0 \<and> 0 < getNumChannels (out c2)
              \<longrightarrow> 0 < getNumChannels (buffer st0)"
        using less.prems(8) ob by (simp add: c2_def c1_def getNumChannels_def)
      show "P (out c2)" using Pob by (simp add: c2_def c1_def)
    qed
    then obtain c' p' where c': "fill_loop start c2 = Some (Inr c')" "P (out c')"
      "wf_buffer (out c')" "frames (out c') = frames (out c2)"
      "length (chans (out c')) = length (chans (out c2))"
      "src c' = st0\<lparr>position := p'\<rparr>" "p' < ?e" "min p2 ?s \<le> p'"
      "?s \<le> p2 \<or> ?e \<le> p2 + samplesNeeded c2 \<longrightarrow> ?s \<le> p'"
      "p2 + samplesNeeded c2 < ?e \<longrightarrow> p' = p2 + samplesNeeded c2"
      by blast
    have run: "fill_loop start c = Some (Inr c')"
      using True body c'(1) by (subst fill_loop.simps) simp
    have need2: "samplesNeeded c2 = ?need - n" by (simp add: c2_def c1_def)
    have a: "min p ?s \<le> p'" using c'(8) p2 by simp
    have b: "?s \<le> p'" if "?s \<le> p \<or> ?e \<le> p + ?need"
    proof -
      have "?s \<le> p2" using that n s0 l1 by (auto simp: p2_def n_def)
      then show ?thesis using c'(9) by simp
    qed
    have d: "p' = p + ?need" if "p + ?need < ?e"
    proof -
      have "n = ?need" using that by (simp add: n_def)
      then have "p2 = p + ?need" "samplesNeeded c2 = 0"
        using that need2 by (simp_all add: p2_def)
      then show ?thesis using c'(10) that by simp
    qed
    show ?thesis
      using run c'(2,3,4,5,6,7) a b d ob by (auto simp: c2_def c1_def)
  qed
qed

lemma clear_region_ok:
  assumes "wf_buffer b" and "0 \<le> s" and "0 \<le> n" and "s + n \<le> getNumSamples b"
  shows "\<exists>cl. clear_region b s n = Inr cl \<and> wf_buffer cl \<and> frames cl = frames b
           \<and> length (chans cl) = length (chans b)
           \<and> (\<forall>i < length (chans b).
                 chans cl ! i = overwrite (chans b ! i) (nat s) (replicate (nat n) 0))"
proof -
  define cl where
    "cl = b\<lparr>chans := map (\<lambda>c. overwrite c (nat s) (replicate (nat n) 0)) (chans b)\<rparr>"
  have eq: "clear_region b s n = Inr cl"
    using assms by (simp add: clear_region_def cl_def)
  have len: "length (overwrite (chans b ! i) (nat s) (replicate (nat n) (0::'a)))
               = length (chans b ! i)" if "i < length (chans b)" for i
  proof (rule length_overwrite)
    have "int (length (chans b ! i)) = frames b"
      using assms(1) that by (rule wf_buffer_chan_length)
    then show "nat s + length (replicate (nat n) (0::'a)) \<le> length (chans b ! i)"
      using assms(2-4) by (simp add: getNumSamples_def)
  qed
  have "int (length (chans cl ! i)) = frames cl" if "i < length (chans cl)" for i
    using that len [of i] wf_buffer_chan_length [OF assms(1), of i] by (simp add: cl_def)
  then have "wf_buffer cl"
    using assms(1) by (simp add: wf_buffer_def list_all_length) (simp add: cl_def)
  then show ?thesis
    using eq by (simp add: cl_def)
qed







section \<open>The block fill in general\<close>

lemma out_wrap_or_finish: "out (wrap_or_finish c1 n) = out c1"
  by (simp add: wrap_or_finish_def Let_def)

lemma fill_loop_once:
  assumes "0 < samplesNeeded c" and "loop_body start c = Inr c2" and "samplesNeeded c2 \<le> 0"
  shows "fill_loop start c = Some (Inr c2)"
proof -
  have "fill_loop start c2 = Some (Inr c2)"
    using assms(3) by (subst fill_loop.simps) simp
  then show ?thesis
    using assms(1,2) by (subst fill_loop.simps) simp
qed

lemma fill_loop_skip:
  assumes "0 < samplesNeeded c" and "run_length (src c) (samplesNeeded c) \<le> 0"
  shows "\<exists>c2. fill_loop start c = Some (Inr c2) \<and> out c2 = out c"
proof -
  define n where "n = run_length (src c) (samplesNeeded c)"
  define c1 where "c1 = \<lparr>src = (src c)\<lparr>position := add32 (position (src c)) (samplesNeeded c)\<rparr>,
          out = out c, samplesNeeded = 0\<rparr>"
  have "copy_run start c n = Inr c1"
    using assms(2) by (simp add: copy_run_skips n_def c1_def)
  then have body: "loop_body start c = Inr (wrap_or_finish c1 n)"
    by (simp add: loop_body_def Let_def n_def)
  have "samplesNeeded (wrap_or_finish c1 n) \<le> 0"
    by (simp add: samplesNeeded_wrap_or_finish c1_def)
  then have "fill_loop start c = Some (Inr (wrap_or_finish c1 n))"
    using assms(1) body by (intro fill_loop_once)
  then show ?thesis
    by (simp add: out_wrap_or_finish c1_def)
qed

lemma run_length_beyond:
  assumes "looping st" and "is_int (getNumSamples (buffer st))"
    and "0 \<le> loopStartPos st" and "0 \<le> loopLen st"
    and "loopStartPos st + loopLen st \<le> getNumSamples (buffer st)"
    and "is_int (position st)" and "loopStartPos st + loopLen st \<le> position st"
  shows "run_length st needed \<le> 0"
proof -
  have "is_int (loopStartPos st + loopLen st)"
    using assms by (simp add: is_int_def)
  then have e: "add32 (loopStartPos st) (loopLen st) = loopStartPos st + loopLen st"
    by (simp add: add32_def to_int_id)
  have "is_int (loopStartPos st + loopLen st - position st)"
    using assms by (simp add: is_int_def)
  then have "sub32 (loopStartPos st + loopLen st) (position st)
               = loopStartPos st + loopLen st - position st"
    by (simp add: sub32_def to_int_id)
  then show ?thesis
    using assms(1,7) e by (simp add: run_length_def jmin_min)
qed

lemma run_length_plain:
  assumes "\<not> looping st" and "0 \<le> getNumSamples (buffer st)"
    and "is_int (getNumSamples (buffer st))"
    and "0 \<le> position st" and "is_int (position st)"
  shows "run_length st needed = min (getNumSamples (buffer st) - position st) needed"
proof -
  have "is_int (getNumSamples (buffer st) - position st)"
    using assms by (simp add: is_int_def)
  then have "sub32 (getNumSamples (buffer st)) (position st)
               = getNumSamples (buffer st) - position st"
    by (simp add: sub32_def to_int_id)
  then show ?thesis
    using assms(1) by (simp add: run_length_def jmin_min min.commute)
qed

text \<open>A call whose first run ends the loop: the block holds exactly that run.\<close>

lemma fill_loop_single_run:
  assumes "wf_buffer (buffer (src c))" and "wf_buffer (out c)"
    and "0 < samplesNeeded c" and "is_int (samplesNeeded c)"
    and "0 \<le> start" and "start + samplesNeeded c \<le> getNumSamples (out c)"
    and "0 \<le> position (src c)" and "is_int (position (src c))"
    and "playAcrossAllChannels (src c) \<and> 0 < getNumChannels (out c)
           \<longrightarrow> 0 < getNumChannels (buffer (src c))"
    and "looping (src c) \<longrightarrow> 0 \<le> loopStartPos (src c) \<and> 1 \<le> loopLen (src c)
           \<and> loopStartPos (src c) + loopLen (src c) \<le> getNumSamples (buffer (src c))
           \<and> position (src c) + samplesNeeded c \<le> loopStartPos (src c) + loopLen (src c)"
    and "0 < run_length (src c) (samplesNeeded c)"
  shows "\<exists>c2. fill_loop start c = Some (Inr c2)
           \<and> run_written (src c) start (run_length (src c) (samplesNeeded c)) (out c) (out c2)
           \<and> position (src c) + run_length (src c) (samplesNeeded c)
                \<le> getNumSamples (buffer (src c))"
proof -
  let ?st = "src c" and ?need = "samplesNeeded c"
  let ?L = "getNumSamples (buffer ?st)"
  define n where "n = run_length ?st ?need"
  have Lint: "is_int ?L" "0 \<le> ?L"
    using assms(1) by (simp_all add: wf_buffer_def getNumSamples_def)
  have n: "0 < n" "n \<le> ?need" using assms(11) by (simp_all add: n_def run_length_le)
  have fit: "position ?st + n \<le> ?L \<and> (looping ?st \<longrightarrow> n = ?need)"
  proof (cases "looping ?st")
    case True
    then have "n = min (loopStartPos ?st + loopLen ?st - position ?st) ?need"
      using run_length_looping [of ?st ?need] assms(3,7,10) Lint by (simp add: n_def)
    then show ?thesis using True assms(10) by auto
  next
    case False
    then have "n = min (?L - position ?st) ?need"
      using run_length_plain [of ?st ?need] assms(7,8) Lint by (simp add: n_def)
    then show ?thesis using False by auto
  qed
  obtain ob' where rw: "run_written ?st start n (out c) ob'"
    and cr: "copy_run start c n =
                Inr \<lparr>src = ?st\<lparr>position := position ?st + n\<rparr>,
                     out = ob', samplesNeeded = ?need - n\<rparr>"
    using copy_run_copies [of c n start] assms(1,2,4,5,6,7,9) n fit by auto
  define c1 where "c1 = \<lparr>src = ?st\<lparr>position := position ?st + n\<rparr>,
                     out = ob', samplesNeeded = ?need - n\<rparr>"
  have body: "loop_body start c = Inr (wrap_or_finish c1 n)"
    using cr by (simp add: loop_body_def Let_def n_def c1_def)
  have "samplesNeeded (wrap_or_finish c1 n) \<le> 0"
    using fit by (simp add: samplesNeeded_wrap_or_finish c1_def)
  then have "fill_loop start c = Some (Inr (wrap_or_finish c1 n))"
    using assms(3) body by (intro fill_loop_once)
  then show ?thesis
    using rw fit by (simp add: out_wrap_or_finish c1_def n_def)
qed

lemma fill_loop_inv:
  fixes st0 :: "'a AudioBufferSource" and P :: "'a AudioBuffer \<Rightarrow> bool"
  assumes wfb: "wf_buffer (buffer st0)"
    and region: "looping st0 \<longrightarrow> 0 \<le> loopStartPos st0 \<and> 1 \<le> loopLen st0
           \<and> loopStartPos st0 + loopLen st0 \<le> getNumSamples (buffer st0)"
    and p0: "0 \<le> position st0" "is_int (position st0)"
    and st: "0 \<le> start"
    and c: "src c = st0" "wf_buffer (out c)" "0 \<le> samplesNeeded c" "samplesNeeded c \<le> N"
      "start + N \<le> getNumSamples (out c)"
      "playAcrossAllChannels st0 \<and> 0 < getNumChannels (out c)
         \<longrightarrow> 0 < getNumChannels (buffer st0)"
      "P (out c)"
    and pres: "\<And>p n ob ob'. \<lbrakk>P ob; wf_buffer ob; 0 \<le> p; 0 < n; n \<le> N;
                 p + n \<le> getNumSamples (buffer st0); start + n \<le> getNumSamples ob;
                 frames ob = frames (out c); length (chans ob) = length (chans (out c));
                 run_written (st0\<lparr>position := p\<rparr>) start n ob ob'\<rbrakk> \<Longrightarrow> P ob'"
  shows "\<exists>c'. fill_loop start c = Some (Inr c') \<and> P (out c')
           \<and> frames (out c') = frames (out c)
           \<and> length (chans (out c')) = length (chans (out c))"
proof -
  let ?L = "getNumSamples (buffer st0)" and ?need = "samplesNeeded c"
  have Lint: "is_int ?L" "0 \<le> ?L"
    using wfb by (simp_all add: wf_buffer_def getNumSamples_def)
  have oint: "is_int (getNumSamples (out c))"
    using c(2) by (simp add: wf_buffer_def getNumSamples_def)
  have nint: "is_int ?need"
    using c(3,4,5) st oint by (simp add: is_int_def)
  consider (zero) "?need = 0"
    | (skip) "0 < ?need" "run_length st0 ?need \<le> 0"
    | (wrap) "0 < ?need" "0 < run_length st0 ?need" "looping st0"
    | (plain) "0 < ?need" "0 < run_length st0 ?need" "\<not> looping st0"
    using c(3) by fastforce
  then show ?thesis
  proof cases
    case zero
    then have "fill_loop start c = Some (Inr c)"
      by (subst fill_loop.simps) simp
    then show ?thesis using c(7) by simp
  next
    case skip
    then show ?thesis
      using fill_loop_skip [of c start] c(1,7) by auto
  next
    case wrap
    have below: "position st0 < loopStartPos st0 + loopLen st0"
    proof (rule ccontr)
      assume "\<not> ?thesis"
      then have "run_length st0 ?need \<le> 0"
        using run_length_beyond [of st0 ?need] wrap(3) region Lint p0 by simp
      then show False using wrap(2) by simp
    qed
    define Q where "Q = (\<lambda>ob. P ob \<and> frames ob = frames (out c)
              \<and> length (chans ob) = length (chans (out c)))"
    have "\<exists>c' p'. fill_loop start c = Some (Inr c') \<and> Q (out c') \<and> wf_buffer (out c')
           \<and> frames (out c') = frames (out c)
           \<and> length (chans (out c')) = length (chans (out c))
           \<and> src c' = st0\<lparr>position := p'\<rparr>
           \<and> p' < loopStartPos st0 + loopLen st0
           \<and> min (position st0) (loopStartPos st0) \<le> p'
           \<and> (loopStartPos st0 \<le> position st0
                 \<or> loopStartPos st0 + loopLen st0 \<le> position st0 + samplesNeeded c
                 \<longrightarrow> loopStartPos st0 \<le> p')
           \<and> (position st0 + samplesNeeded c < loopStartPos st0 + loopLen st0
                 \<longrightarrow> p' = position st0 + samplesNeeded c)"
    proof (rule fill_loop_looping [where P = Q and N = N])
      show "looping st0" "wf_buffer (buffer st0)" "0 \<le> loopStartPos st0"
        "1 \<le> loopLen st0" "loopStartPos st0 + loopLen st0 \<le> ?L"
        using wrap(3) region wfb by simp_all
      show "0 \<le> start" by (rule st)
      show "src c = st0\<lparr>position := position st0\<rparr>" using c(1) by simp
      show "0 \<le> position st0" "position st0 < loopStartPos st0 + loopLen st0"
        using p0 below by simp_all
      show "wf_buffer (out c)" "0 \<le> ?need" "?need \<le> N" "start + N \<le> getNumSamples (out c)"
        "playAcrossAllChannels st0 \<and> 0 < getNumChannels (out c)
           \<longrightarrow> 0 < getNumChannels (buffer st0)"
        using c by simp_all
      show "Q (out c)"
        using c(7) by (simp add: Q_def)
    next
      fix p n ob ob'
      assume a: "Q ob"
        "wf_buffer ob" "0 \<le> p" "0 < n" "n \<le> N" "p + n \<le> ?L"
        "start + n \<le> getNumSamples ob" "run_written (st0\<lparr>position := p\<rparr>) start n ob ob'"
      have "P ob'"
        using a by (intro pres [of ob p n ob']) (simp_all add: Q_def)
      then show "Q ob'"
        using a(1,8) by (simp add: run_written_def Q_def)
    qed
    then show ?thesis by (auto simp: Q_def)
  next
    case plain
    have "\<exists>c2. fill_loop start c = Some (Inr c2)
           \<and> run_written (src c) start (run_length (src c) ?need) (out c) (out c2)
           \<and> position (src c) + run_length (src c) ?need \<le> getNumSamples (buffer (src c))"
      using c wfb p0 st plain nint run_length_le [of st0 ?need]
      by (intro fill_loop_single_run) auto
    then obtain c2 where c2: "fill_loop start c = Some (Inr c2)"
      "run_written st0 start (run_length st0 ?need) (out c) (out c2)"
      "position st0 + run_length st0 ?need \<le> ?L"
      using c(1) by auto
    have "P (out c2)"
    proof (rule pres [of "out c" "position st0" "run_length st0 ?need"])
      show "P (out c)" "wf_buffer (out c)" "0 \<le> position st0" "0 < run_length st0 ?need"
        using c plain p0 by simp_all
      show "run_length st0 ?need \<le> N"
        using run_length_le [of st0 ?need] c(4) by simp
      show "position st0 + run_length st0 ?need \<le> ?L" by (rule c2(3))
      show "start + run_length st0 ?need \<le> getNumSamples (out c)"
        using run_length_le [of st0 ?need] c(4,5) by simp
      show "run_written (st0\<lparr>position := position st0\<rparr>) start (run_length st0 ?need)
              (out c) (out c2)"
        using c2(2) by simp
    qed simp_all
    then show ?thesis
      using c2(1,2) by (auto simp: run_written_def)
  qed
qed

section \<open>Mono sources and stereo blocks\<close>

lemma nth_piece:
  assumes "length (piece st ch n) = nat n" and "j < nat n"
  shows "piece st ch n ! j = chans (buffer st) ! nat ch ! (nat (position st) + j)"
proof -
  let ?xs = "chans (buffer st) ! nat ch"
  have "min (length ?xs - nat (position st)) (nat n) = nat n"
    using assms(1) by (simp add: piece_def)
  then have "nat (position st) \<le> length ?xs"
    using assms(2) by linarith
  then show ?thesis
    using assms(2) by (simp add: piece_def)
qed

text \<open>
  C5. A one-channel source fills a two-channel block (any well-formed block, the read
  position a non-negative \<open>int\<close>, the loop region valid when looping). The call
  returns normally. With the fan-out flag set, the two output channels hold identical
  samples over the requested region, both copied from input channel 0 (\<open>i mod 1\<close>).
  With the flag clear, output channel 1 holds zeros over the requested region, those of
  the initial clear. In both cases, when the call makes a single run (the source is not
  looping, or the block ends by the loop end), the run at the start of the region of
  output channel 0 is the input channel's samples from the read position on.
\<close>

theorem mono_into_stereo:
  fixes st :: "'a::zero AudioBufferSource"
  assumes wfb: "wf_buffer (buffer st)" and mono: "getNumChannels (buffer st) = 1"
    and bok: "block_ok st b" and stereo: "getNumChannels (dest b) = 2"
    and p0: "0 \<le> position st" "is_int (position st)"
    and region: "looping st \<longrightarrow> 0 \<le> loopStartPos st \<and> 1 \<le> loopLen st
           \<and> loopStartPos st + loopLen st \<le> getNumSamples (buffer st)"
  shows "\<exists>st' ob. getNextAudioBlock st b = Some (Inr (st', ob)) \<and> length (chans ob) = 2
     \<and> (playAcrossAllChannels st \<longrightarrow>
          (\<forall>j. nat (startSample b) \<le> j \<and> j < nat (startSample b + numSamples b)
                \<longrightarrow> chans ob ! 0 ! j = chans ob ! 1 ! j))
     \<and> (\<not> playAcrossAllChannels st \<longrightarrow>
          (\<forall>j. nat (startSample b) \<le> j \<and> j < nat (startSample b + numSamples b)
                \<longrightarrow> chans ob ! 1 ! j = 0))
     \<and> ((looping st \<longrightarrow> position st + numSamples b \<le> loopStartPos st + loopLen st) \<longrightarrow>
          (\<forall>j < nat (run_length st (numSamples b)).
             chans ob ! 0 ! (nat (startSample b) + j)
               = chans (buffer st) ! 0 ! (nat (position st) + j)))"
proof -
  let ?s = "startSample b" and ?N = "numSamples b"
  have blk: "wf_buffer (dest b)" "0 \<le> ?s" "0 \<le> ?N" "?s + ?N \<le> getNumSamples (dest b)"
    using bok by (simp_all add: block_ok_def)
  obtain cl where cl: "clear_region (dest b) ?s ?N = Inr cl"
    "wf_buffer cl" "frames cl = frames (dest b)" "length (chans cl) = length (chans (dest b))"
    "\<forall>i < length (chans (dest b)).
        chans cl ! i = overwrite (chans (dest b) ! i) (nat ?s) (replicate (nat ?N) 0)"
    using clear_region_ok [OF blk] by blast
  have two: "length (chans cl) = 2" "length (chans (dest b)) = 2"
    using cl(4) stereo by (simp_all add: getNumChannels_def)
  have fr: "?s + ?N \<le> frames cl" using blk(4) cl(3) by (simp add: getNumSamples_def)
  have len_dest: "int (length (chans (dest b) ! i)) = frames (dest b)" if "i < 2" for i
    using wf_buffer_chan_length [OF blk(1), of i] that two by simp
  have zero: "chans cl ! i ! j = 0" if "i < 2" "nat ?s \<le> j" "j < nat (?s + ?N)" for i j
  proof -
    have "chans cl ! i = overwrite (chans (dest b) ! i) (nat ?s) (replicate (nat ?N) 0)"
      using cl(5) that(1) two by simp
    moreover have "nat ?s + length (replicate (nat ?N) (0::'a)) \<le> length (chans (dest b) ! i)"
      using len_dest [OF that(1)] blk by (simp add: getNumSamples_def)
    moreover have "j < length (chans (dest b) ! i)"
      using len_dest [OF that(1)] blk that(3) by (simp add: getNumSamples_def)
    moreover have "j - nat ?s < nat ?N" "j < nat ?s + nat ?N"
      using that(2,3) blk by linarith+
    ultimately show ?thesis
      using that(2) by (simp add: nth_overwrite)
  qed
  define P where "P = (\<lambda>ob :: 'a AudioBuffer.
      (playAcrossAllChannels st \<longrightarrow>
          (\<forall>j. nat ?s \<le> j \<and> j < nat (?s + ?N) \<longrightarrow> chans ob ! 0 ! j = chans ob ! 1 ! j))
      \<and> (\<not> playAcrossAllChannels st \<longrightarrow> chans ob ! 1 = chans cl ! 1))"
  define c where "c = \<lparr>src = st, out = cl, samplesNeeded = ?N\<rparr>"
  have Pcl: "P cl"
    using zero by (simp add: P_def)
  have chan: "playAcrossAllChannels st \<and> 0 < getNumChannels cl
                \<longrightarrow> 0 < getNumChannels (buffer st)"
    using mono by simp
  have pres: "P ob'"
    if a: "P ob" "wf_buffer ob" "0 \<le> p" "0 < n" "n \<le> ?N"
      "p + n \<le> getNumSamples (buffer st)" "?s + n \<le> getNumSamples ob"
      "frames ob = frames cl" "length (chans ob) = length (chans cl)"
      "run_written (st\<lparr>position := p\<rparr>) ?s n ob ob'"
    for p n ob ob'
  proof -
    let ?st = "st\<lparr>position := p\<rparr>"
    define pc where "pc = piece ?st 0 n"
    have lpc: "length pc = nat n"
      unfolding pc_def using wfb mono a by (intro length_piece) simp_all
    have ch: "\<forall>i < 2. chans ob' ! i =
           (if i < out_channels ?st ob then overwrite (chans ob ! i) (nat ?s) pc
            else chans ob ! i)"
      using a(9,10) two(1) mono by (simp add: run_written_def pc_def)
    have lo: "int (length (chans ob ! i)) = frames cl" if "i < 2" for i
      using wf_buffer_chan_length [OF a(2), of i] that a(8,9) two by simp
    show ?thesis
    proof (cases "playAcrossAllChannels st")
      case True
      then have "out_channels ?st ob = 2"
        using a(9) two by (simp add: out_channels_def getNumChannels_def)
      then have ov: "chans ob' ! 0 = overwrite (chans ob ! 0) (nat ?s) pc"
        "chans ob' ! 1 = overwrite (chans ob ! 1) (nat ?s) pc"
        using ch by simp_all
      have "chans ob' ! 0 ! j = chans ob' ! 1 ! j"
        if j: "nat ?s \<le> j" "j < nat (?s + ?N)" for j
      proof -
        have fit: "nat ?s + length pc \<le> length (chans ob ! i)"
          "j < length (chans ob ! i)" if "i < 2" for i
          using lo [OF that] lpc a(4,5) fr blk j by linarith+
        have "chans ob ! 0 ! j = chans ob ! 1 ! j"
          using a(1) True j by (simp add: P_def)
        then have "overwrite (chans ob ! 0) (nat ?s) pc ! j
                     = overwrite (chans ob ! 1) (nat ?s) pc ! j"
          using fit [of 0] fit [of 1] by (simp add: nth_overwrite)
        then show ?thesis
          by (simp only: ov)
      qed
      then show ?thesis using True by (simp add: P_def)
    next
      case False
      then have "out_channels ?st ob = 1"
        using a(9) two mono by (simp add: out_channels_def getNumChannels_def jmin_def)
      then have "chans ob' ! 1 = chans ob ! 1"
        using ch by simp
      then show ?thesis using False a(1) by (simp add: P_def)
    qed
  qed
  have "\<exists>c'. fill_loop ?s c = Some (Inr c') \<and> P (out c')
           \<and> frames (out c') = frames (out c)
           \<and> length (chans (out c')) = length (chans (out c))"
  proof (rule fill_loop_inv [where ?st0.0 = st and N = ?N])
    show "wf_buffer (buffer st)" "0 \<le> position st" "is_int (position st)" "0 \<le> ?s"
      using wfb p0 blk by simp_all
    show "looping st \<longrightarrow> 0 \<le> loopStartPos st \<and> 1 \<le> loopLen st
           \<and> loopStartPos st + loopLen st \<le> getNumSamples (buffer st)"
      by (rule region)
    show "src c = st" "wf_buffer (out c)" "0 \<le> samplesNeeded c" "samplesNeeded c \<le> ?N"
      using cl blk by (simp_all add: c_def)
    show "?s + ?N \<le> getNumSamples (out c)"
      using fr by (simp add: c_def getNumSamples_def)
    show "playAcrossAllChannels st \<and> 0 < getNumChannels (out c)
           \<longrightarrow> 0 < getNumChannels (buffer st)"
      using chan by (simp add: c_def)
    show "P (out c)" using Pcl by (simp add: c_def)
  next
    fix p n ob ob'
    assume "P ob" "wf_buffer ob" "0 \<le> p" "0 < n" "n \<le> ?N"
      "p + n \<le> getNumSamples (buffer st)" "?s + n \<le> getNumSamples ob"
      "frames ob = frames (out c)" "length (chans ob) = length (chans (out c))"
      "run_written (st\<lparr>position := p\<rparr>) ?s n ob ob'"
    then show "P ob'"
      by (intro pres [of ob p n ob']) (simp_all add: c_def)
  qed
  then obtain c' where c': "fill_loop ?s c = Some (Inr c')" "P (out c')"
    "length (chans (out c')) = 2"
    using two by (auto simp: c_def)
  have res: "getNextAudioBlock st b = Some (Inr (src c', out c'))"
    using cl(1) c'(1) by (simp add: getNextAudioBlock_def c_def)
  have fan: "chans (out c') ! 0 ! j = chans (out c') ! 1 ! j"
    if "playAcrossAllChannels st" "nat ?s \<le> j" "j < nat (?s + ?N)" for j
    using c'(2) that by (simp add: P_def)
  have nofan: "chans (out c') ! 1 ! j = 0"
    if "\<not> playAcrossAllChannels st" "nat ?s \<le> j" "j < nat (?s + ?N)" for j
    using c'(2) that zero [of 1 j] by (simp add: P_def)
  have content: "chans (out c') ! 0 ! (nat ?s + j) = chans (buffer st) ! 0 ! (nat (position st) + j)"
    if single: "looping st \<longrightarrow> position st + ?N \<le> loopStartPos st + loopLen st"
      and j: "j < nat (run_length st ?N)" for j
  proof -
    define n where "n = run_length st ?N"
    have n: "0 < n" "n \<le> ?N" using j by (simp_all add: n_def run_length_le)
    have Nint: "is_int ?N"
      using blk by (simp add: wf_buffer_def getNumSamples_def is_int_def)
    have "\<exists>c2. fill_loop ?s c = Some (Inr c2)
           \<and> run_written (src c) ?s (run_length (src c) (samplesNeeded c)) (out c) (out c2)
           \<and> position (src c) + run_length (src c) (samplesNeeded c)
                \<le> getNumSamples (buffer (src c))"
      using wfb cl(2) n Nint blk(2) fr p0 chan region single
      by (intro fill_loop_single_run) (simp_all add: c_def n_def getNumSamples_def)
    then have rw: "run_written st ?s n cl (out c')" and fit: "position st + n \<le> getNumSamples (buffer st)"
      using c'(1) by (auto simp: c_def n_def)
    have "0 < out_channels st cl"
      using two mono by (simp add: out_channels_def getNumChannels_def jmin_def)
    then have ov: "chans (out c') ! 0 = overwrite (chans cl ! 0) (nat ?s) (piece st 0 n)"
      using rw two mono by (simp add: run_written_def)
    have lpc: "length (piece st 0 n) = nat n"
      using wfb mono p0 n fit by (intro length_piece) simp_all
    have lcl: "int (length (chans cl ! 0)) = frames cl"
      using wf_buffer_chan_length [OF cl(2), of 0] two by simp
    have "nat ?s + length (piece st 0 n) \<le> length (chans cl ! 0)"
      "nat ?s + j < length (chans cl ! 0)"
      using lcl lpc n fr blk j by (simp_all add: n_def)
    then have "chans (out c') ! 0 ! (nat ?s + j) = piece st 0 n ! j"
      using j lpc by (simp add: ov nth_overwrite n_def)
    also have "\<dots> = chans (buffer st) ! 0 ! (nat (position st) + j)"
      using nth_piece [OF lpc, of j] j by (simp add: n_def)
    finally show ?thesis .
  qed
  show ?thesis
    using res c'(3) fan nofan content by blast
qed

theorem mono_into_stereo_witness:
  "wf_buffer (buffer ramp_source) \<and> getNumChannels (buffer ramp_source) = 1
   \<and> block_ok ramp_source (stereo_block 4) \<and> getNumChannels (dest (stereo_block 4)) = 2
   \<and> 0 \<le> position ramp_source \<and> is_int (position ramp_source) \<and> \<not> looping ramp_source
   \<and> playAcrossAllChannels ramp_source
   \<and> run_length ramp_source (numSamples (stereo_block 4)) = 4
   \<and> getNextAudioBlock ramp_source (stereo_block 4)
        = Some (Inr (ramp_source,
             \<lparr>frames = 6, chans = [[9, 0, 1, 2, 3, 9], [8, 0, 1, 2, 3, 8]]\<rparr>))
   \<and> getNextAudioBlock (ramp_source\<lparr>playAcrossAllChannels := False\<rparr>) (stereo_block 4)
        = Some (Inr (ramp_source\<lparr>playAcrossAllChannels := False\<rparr>,
             \<lparr>frames = 6, chans = [[9, 0, 1, 2, 3, 9], [8, 0, 0, 0, 0, 8]]\<rparr>))"
proof -
  have h: "wf_buffer (buffer ramp_source)" "getNumChannels (buffer ramp_source) = 1"
    "block_ok ramp_source (stereo_block 4)" "getNumChannels (dest (stereo_block 4)) = 2"
    "0 \<le> position ramp_source" "is_int (position ramp_source)" "\<not> looping ramp_source"
    "playAcrossAllChannels ramp_source"
    "run_length ramp_source (numSamples (stereo_block 4)) = 4"
    by code_simp+
  have r: "getNextAudioBlock ramp_source (stereo_block 4)
        = Some (Inr (ramp_source,
             \<lparr>frames = 6, chans = [[9, 0, 1, 2, 3, 9], [8, 0, 1, 2, 3, 8]]\<rparr>))"
    "getNextAudioBlock (ramp_source\<lparr>playAcrossAllChannels := False\<rparr>) (stereo_block 4)
        = Some (Inr (ramp_source\<lparr>playAcrossAllChannels := False\<rparr>,
             \<lparr>frames = 6, chans = [[9, 0, 1, 2, 3, 9], [8, 0, 0, 0, 0, 8]]\<rparr>))"
    by code_simp+
  have "\<exists>st' ob. getNextAudioBlock ramp_source (stereo_block 4) = Some (Inr (st', ob))
     \<and> length (chans ob) = 2
     \<and> (playAcrossAllChannels ramp_source \<longrightarrow>
          (\<forall>j. nat (startSample (stereo_block 4)) \<le> j
                \<and> j < nat (startSample (stereo_block 4) + numSamples (stereo_block 4))
                \<longrightarrow> chans ob ! 0 ! j = chans ob ! 1 ! j))
     \<and> (\<not> playAcrossAllChannels ramp_source \<longrightarrow>
          (\<forall>j. nat (startSample (stereo_block 4)) \<le> j
                \<and> j < nat (startSample (stereo_block 4) + numSamples (stereo_block 4))
                \<longrightarrow> chans ob ! 1 ! j = 0))
     \<and> ((looping ramp_source \<longrightarrow> position ramp_source + numSamples (stereo_block 4)
             \<le> loopStartPos ramp_source + loopLen ramp_source) \<longrightarrow>
          (\<forall>j < nat (run_length ramp_source (numSamples (stereo_block 4))).
             chans ob ! 0 ! (nat (startSample (stereo_block 4)) + j)
               = chans (buffer ramp_source) ! 0 ! (nat (position ramp_source) + j)))"
    using h by (intro mono_into_stereo) simp_all
  then show ?thesis
    using h r by simp
qed

section \<open>A source that is not looping, after its end\<close>

text \<open>
  A single call on a source that is not looping and whose position is at or beyond the
  buffer length returns the cleared block: no run is copied.
\<close>

lemma exhausted_call_silent:
  fixes st :: "'a::zero AudioBufferSource"
  assumes "\<not> looping st" and "wf_buffer (buffer st)"
    and "getNumSamples (buffer st) \<le> position st" and "is_int (position st)"
    and "block_ok st b"
  shows "\<exists>st' cl. clear_region (dest b) (startSample b) (numSamples b) = Inr cl
           \<and> getNextAudioBlock st b = Some (Inr (st', cl))"
proof -
  obtain cl where cl: "clear_region (dest b) (startSample b) (numSamples b) = Inr cl"
    using clear_region_ok [of "dest b" "startSample b" "numSamples b"] assms(5)
    by (auto simp: block_ok_def)
  define c where "c = \<lparr>src = st, out = cl, samplesNeeded = numSamples b\<rparr>"
  have L: "0 \<le> getNumSamples (buffer st)" "is_int (getNumSamples (buffer st))"
    using assms(2) by (simp_all add: wf_buffer_def getNumSamples_def)
  have "\<exists>c2. fill_loop (startSample b) c = Some (Inr c2) \<and> out c2 = out c"
  proof (cases "0 < numSamples b")
    case True
    have "run_length st (numSamples b) \<le> 0"
      using run_length_plain [of st "numSamples b"] assms(1,3,4) L by simp
    then show ?thesis
      using True by (intro fill_loop_skip) (simp_all add: c_def)
  next
    case False
    then have "fill_loop (startSample b) c = Some (Inr c)"
      by (subst fill_loop.simps) (simp add: c_def)
    then show ?thesis by simp
  qed
  then obtain c2 where "fill_loop (startSample b) c = Some (Inr c2)" "out c2 = cl"
    by (auto simp: c_def)
  then have "getNextAudioBlock st b = Some (Inr (src c2, cl))"
    using cl by (simp add: getNextAudioBlock_def c_def)
  then show ?thesis using cl by blast
qed

text \<open>
  C2, evaluated where the code breaks it. Each call past the end moves the position of a
  source that is not looping from \<open>p\<close> to \<open>2 * p + numSamples - L\<close>, because the
  last statement of the loop adds \<open>samplesNeeded - samplesToCopy\<close> after both have
  been updated. A one-frame source reaches its end (position 1) on a first block of 2
  samples. Pulled in blocks of 3 samples from there, its position passes \<open>2^31\<close> on
  the 30th call and wraps to \<open>-1073741826\<close>; the 31st call then copies a run from that
  negative position, a read outside the buffer. Pulled in blocks of 1 sample, its
  position wraps to 0 after 32 calls, and the 33rd call writes the sample 7, not silence.
\<close>

theorem exhausted_source_overruns:
  "\<not> looping tick_source \<and> getTotalLength tick_source = 1
   \<and> pull_blocks tick_source [mono_block 2] = Some (Inr (tick_source\<lparr>position := 1\<rparr>))
   \<and> pull_blocks (tick_source\<lparr>position := 1\<rparr>) (replicate 30 (mono_block 3))
        = Some (Inr (tick_source\<lparr>position := - 1073741826\<rparr>))
   \<and> getNextAudioBlock (tick_source\<lparr>position := - 1073741826\<rparr>) (mono_block 3)
        = Some (Inl OutOfRange)
   \<and> pull_blocks (tick_source\<lparr>position := 1\<rparr>) (replicate 32 (mono_block 1))
        = Some (Inr (tick_source\<lparr>position := 0\<rparr>))
   \<and> getNextAudioBlock (tick_source\<lparr>position := 0\<rparr>) (mono_block 1)
        = Some (Inr (tick_source\<lparr>position := 0\<rparr>, \<lparr>frames = 1, chans = [[7]]\<rparr>))"
  by code_simp

section \<open>Teardown of a session\<close>

lemma same_player_refl: "same_player w w"
  by (simp add: same_player_def)

lemma same_player_trans: "same_player w w1 \<Longrightarrow> same_player w1 w2 \<Longrightarrow> same_player w w2"
  by (simp add: same_player_def)

lemma obj_at_Some_less: "obj_at w i = Some ob \<Longrightarrow> i < length (heap w)"
  by (simp add: obj_at_def split: if_splits)

lemma obj_at_release: "obj_at (release w i) j = (if j = i then None else obj_at w j)"
  by (cases "i < length (heap w)") (simp_all add: obj_at_def release_def)

lemma same_player_release: "same_player w (release w i)"
  by (simp add: same_player_def release_def)

lemma trace_release: "trace (release w i) = trace w @ [Destroyed i]"
  by (simp add: release_def)

lemma obj_at_put:
  "obj_at (w\<lparr>heap := (heap w)[t := Some v], trace := tr\<rparr>) j =
     (if j = t \<and> t < length (heap w) then Some v else obj_at w j)"
  by (cases "t < length (heap w)") (auto simp: obj_at_def)

lemma obj_at_put_heap:
  "obj_at (w\<lparr>heap := (heap w)[t := Some v]\<rparr>) j =
     (if j = t \<and> t < length (heap w) then Some v else obj_at w j)"
  by (cases "t < length (heap w)") (auto simp: obj_at_def)

lemma delete_source_ready:
  assumes "source_ready w s"
  shows "\<exists>w'. delete_source w s = Inr w' \<and> trace w' = trace w @ source_teardown w s
           \<and> same_player w w' \<and> obj_at w' s = None
           \<and> (\<forall>i. obj_at w i = None \<longrightarrow> obj_at w' i = None)
           \<and> (\<forall>i ob. obj_at w i = Some ob \<longrightarrow> is_transport ob \<longrightarrow> obj_at w' i = Some ob)"
proof -
  obtain res where s: "obj_at w s = Some (PlainSource res)"
    using assms by (auto simp: source_ready_def split: option.splits obj.splits)
  show ?thesis
  proof (cases "\<exists>r. res = Some (r, True)")
    case True
    then obtain r where res: "res = Some (r, True)" by blast
    have live: "resource_live w r"
      using assms s res by (simp add: source_ready_def)
    then have r: "obj_at w r = Some Buffer \<or> (\<exists>rate. obj_at w r = Some (Reader rate))"
      by (auto simp: resource_live_def split: option.splits obj.splits)
    then have rs: "r \<noteq> s" using s by auto
    have dr: "delete_resource w r = Inr (release w r)"
      using r by (auto simp: delete_resource_def)
    let ?w' = "release (release w r) s"
    have "delete_source w s = Inr ?w'"
      using s res dr by (simp add: delete_source_def and_then_def)
    moreover have "trace ?w' = trace w @ source_teardown w s"
      using s res by (simp add: trace_release source_teardown_def)
    moreover have "same_player w ?w'"
      by (simp add: same_player_def release_def)
    moreover have "obj_at ?w' s = None"
      by (simp add: obj_at_release)
    moreover have "obj_at ?w' i = None" if "obj_at w i = None" for i
      using that by (simp add: obj_at_release)
    moreover have "obj_at ?w' i = Some ob" if "obj_at w i = Some ob" "is_transport ob" for i ob
    proof -
      have "i \<noteq> s" "i \<noteq> r"
        using that s r by (auto simp: is_transport_def)
      then show ?thesis
        using that(1) by (simp add: obj_at_release)
    qed
    ultimately show ?thesis by blast
  next
    case False
    then have ds: "delete_source w s = Inr (release w s)"
      using s by (cases res) (auto simp: delete_source_def split: bool.splits)
    have td: "source_teardown w s = [Destroyed s]"
      using s False by (cases res) (auto simp: source_teardown_def split: bool.splits)
    have "trace (release w s) = trace w @ source_teardown w s"
      by (simp add: trace_release td)
    moreover have "obj_at (release w s) i = Some ob"
      if "obj_at w i = Some ob" "is_transport ob" for i ob
    proof -
      have "i \<noteq> s" using that s by (auto simp: is_transport_def)
      then show ?thesis
        using that(1) by (simp add: obj_at_release)
    qed
    ultimately show ?thesis
      using ds by (simp add: same_player_release obj_at_release)
  qed
qed

text \<open>Clearing the source reference of a live transport or session.\<close>

lemma clearSource_detached:
  assumes "obj_at w t = Some ob" and "is_transport ob"
    and "case ob of Transport src0 owned pl \<Rightarrow> src0 = None
         | Session ts own src0 pl \<Rightarrow> src0 = None | _ \<Rightarrow> True"
  shows "clearSource w t = Inr w"
  using assms by (cases ob) (auto simp: clearSource_def is_transport_def)

lemma clearSource_transport:
  assumes "obj_at w t = Some (Transport (Some s) owned pl)" and "obj_at w s \<noteq> None"
  shows "\<exists>w'. clearSource w t = Inr w' \<and> trace w' = trace w @ [Detached t s]
           \<and> same_player w w' \<and> obj_at w' t = Some (Transport None owned pl)
           \<and> (\<forall>i. i \<noteq> t \<longrightarrow> obj_at w' i = obj_at w i)"
proof -
  have t: "t < length (heap w)" using assms(1) by (rule obj_at_Some_less)
  let ?w' = "w\<lparr>heap := (heap w)[t := Some (Transport None owned pl)],
               trace := trace w @ [Detached t s]\<rparr>"
  have "clearSource w t = Inr ?w'"
    using assms by (simp add: clearSource_def)
  moreover have "obj_at ?w' t = Some (Transport None owned pl)"
    using t by (simp add: obj_at_put)
  moreover have "\<forall>i. i \<noteq> t \<longrightarrow> obj_at ?w' i = obj_at w i"
    by (simp add: obj_at_put)
  ultimately show ?thesis
    by (simp add: same_player_def)
qed

lemma clearSource_session:
  assumes "obj_at w x = Some (Session ts own (Some s) pl)" and "obj_at w s \<noteq> None"
  shows "\<exists>w'. clearSource w x = Inr w' \<and> trace w' = trace w @ [Detached x s]
           \<and> same_player w w' \<and> obj_at w' x = Some (Session ts own None pl)
           \<and> (\<forall>i. i \<noteq> x \<longrightarrow> obj_at w' i = obj_at w i)"
proof -
  have x: "x < length (heap w)" using assms(1) by (rule obj_at_Some_less)
  let ?w' = "w\<lparr>heap := (heap w)[x := Some (Session ts own None pl)],
               trace := trace w @ [Detached x s]\<rparr>"
  have "clearSource w x = Inr ?w'"
    using assms by (simp add: clearSource_def)
  moreover have "obj_at ?w' x = Some (Session ts own None pl)"
    using x by (simp add: obj_at_put)
  moreover have "\<forall>i. i \<noteq> x \<longrightarrow> obj_at ?w' i = obj_at w i"
    by (simp add: obj_at_put)
  ultimately show ?thesis
    by (simp add: same_player_def)
qed

lemma source_ready_elsewhere:
  assumes "\<forall>i. i \<noteq> t \<longrightarrow> obj_at w1 i = obj_at w i"
    and "obj_at w t = Some ob" and "is_transport ob" and "source_ready w s"
  shows "source_ready w1 s \<and> source_teardown w1 s = source_teardown w s"
proof -
  obtain res where s: "obj_at w s = Some (PlainSource res)"
    using assms(4) by (auto simp: source_ready_def split: option.splits obj.splits)
  then have "s \<noteq> t" using assms(2,3) by (auto simp: is_transport_def)
  then have s1: "obj_at w1 s = Some (PlainSource res)" using assms(1) s by simp
  show ?thesis
  proof (cases "\<exists>r. res = Some (r, True)")
    case True
    then obtain r where res: "res = Some (r, True)" by blast
    then have "resource_live w r" using assms(4) s by (simp add: source_ready_def)
    then have "r \<noteq> t"
      using assms(2,3) by (auto simp: resource_live_def is_transport_def split: obj.splits)
    then have "obj_at w1 r = obj_at w r" using assms(1) by simp
    then show ?thesis
      using s s1 res assms(4) by (simp add: source_ready_def source_teardown_def resource_live_def)
  next
    case False
    then show ?thesis
      using s s1 by (cases res) (auto simp: source_ready_def source_teardown_def split: bool.splits)
  qed
qed

lemma clearSource_any_transport:
  assumes "obj_at w t = Some (Transport src0 owned pl)"
    and "case src0 of Some s \<Rightarrow> obj_at w s \<noteq> None | None \<Rightarrow> True"
  shows "\<exists>w'. clearSource w t = Inr w'
           \<and> trace w' = trace w @ (case src0 of Some s \<Rightarrow> [Detached t s] | None \<Rightarrow> [])
           \<and> same_player w w' \<and> obj_at w' t = Some (Transport None owned pl)
           \<and> (\<forall>i. i \<noteq> t \<longrightarrow> obj_at w' i = obj_at w i)"
proof (cases src0)
  case None
  then have "clearSource w t = Inr w"
    using assms(1) by (simp add: clearSource_def)
  then show ?thesis
    using None assms(1) by (simp add: same_player_refl)
next
  case (Some s)
  then show ?thesis
    using clearSource_transport [of w t s owned pl] assms by simp
qed

lemma clearSource_any_session:
  assumes "obj_at w x = Some (Session ts own src0 pl)"
    and "case src0 of Some s \<Rightarrow> obj_at w s \<noteq> None | None \<Rightarrow> True"
  shows "\<exists>w'. clearSource w x = Inr w'
           \<and> trace w' = trace w @ (case src0 of Some s \<Rightarrow> [Detached x s] | None \<Rightarrow> [])
           \<and> same_player w w' \<and> obj_at w' x = Some (Session ts own None pl)
           \<and> (\<forall>i. i \<noteq> x \<longrightarrow> obj_at w' i = obj_at w i)"
proof (cases src0)
  case None
  then have "clearSource w x = Inr w"
    using assms(1) by (simp add: clearSource_def)
  then show ?thesis
    using None assms(1) by (simp add: same_player_refl)
next
  case (Some s)
  then show ?thesis
    using clearSource_session [of w x ts own s pl] assms by simp
qed

lemma delete_transport_ready:
  assumes "transport_ready w t"
  shows "\<exists>w'. delete_transport w t = Inr w' \<and> trace w' = trace w @ transport_teardown w t
           \<and> same_player w w' \<and> obj_at w' t = None
           \<and> (\<forall>i. obj_at w i = None \<longrightarrow> obj_at w' i = None)
           \<and> (\<forall>i ts own a pl. obj_at w i = Some (Session ts own a pl)
                  \<longrightarrow> obj_at w' i = Some (Session ts own a pl))
           \<and> (\<forall>a s pl. obj_at w t = Some (Transport a (Some s) pl) \<longrightarrow> obj_at w' s = None)"
proof -
  obtain src0 owned pl where t: "obj_at w t = Some (Transport src0 owned pl)"
    using assms by (auto simp: transport_ready_def split: option.splits obj.splits)
  have alive: "case src0 of Some s \<Rightarrow> obj_at w s \<noteq> None | None \<Rightarrow> True"
    and own: "case owned of Some s \<Rightarrow> source_ready w s | None \<Rightarrow> True"
    using assms t by (simp_all add: transport_ready_def)
  obtain w1 where w1: "clearSource w t = Inr w1"
    "trace w1 = trace w @ (case src0 of Some s \<Rightarrow> [Detached t s] | None \<Rightarrow> [])"
    "same_player w w1" "obj_at w1 t = Some (Transport None owned pl)"
    "\<forall>i. i \<noteq> t \<longrightarrow> obj_at w1 i = obj_at w i"
    using clearSource_any_transport [OF t alive] by blast
  have keep: "obj_at w1 i = Some (Session ts own a p)"
    if "obj_at w i = Some (Session ts own a p)" for i ts own a p
  proof -
    have "i \<noteq> t" using that t by auto
    then show ?thesis using w1(5) that by simp
  qed
  have dead: "obj_at w1 i = None" if "obj_at w i = None" for i
  proof -
    have "i \<noteq> t" using that t by auto
    then show ?thesis using w1(5) that by simp
  qed
  show ?thesis
  proof (cases owned)
    case None
    have "delete_transport w t = Inr (release w1 t)"
      using t None w1(1) by (simp add: delete_transport_def and_then_def)
    moreover have "trace (release w1 t) = trace w @ transport_teardown w t"
      using t None w1(2) by (simp add: trace_release transport_teardown_def)
    moreover have "same_player w (release w1 t)"
      using w1(3) same_player_release same_player_trans by blast
    ultimately show ?thesis
      using keep dead t None by (auto simp: obj_at_release)
  next
    case (Some s)
    have tr: "is_transport (Transport src0 owned pl)" by (simp add: is_transport_def)
    have ready: "source_ready w1 s" and td: "source_teardown w1 s = source_teardown w s"
      using source_ready_elsewhere [OF w1(5) t tr] own Some by simp_all
    obtain w2 where w2: "delete_source w1 s = Inr w2"
      "trace w2 = trace w1 @ source_teardown w1 s" "same_player w1 w2" "obj_at w2 s = None"
      "\<forall>i. obj_at w1 i = None \<longrightarrow> obj_at w2 i = None"
      "\<forall>i ob. obj_at w1 i = Some ob \<longrightarrow> is_transport ob \<longrightarrow> obj_at w2 i = Some ob"
      using delete_source_ready [OF ready] by blast
    have t2: "obj_at w2 t = Some (Transport None owned pl)"
      using w2(6) w1(4) by (simp add: is_transport_def)
    have c2: "clearSource w2 t = Inr w2"
      using t2 by (intro clearSource_detached [where ob = "Transport None owned pl"])
        (simp_all add: is_transport_def)
    have "delete_transport w t = Inr (release w2 t)"
      using t Some w1(1) w2(1) c2 by (simp add: delete_transport_def and_then_def)
    moreover have "trace (release w2 t) = trace w @ transport_teardown w t"
      using t Some w1(2) w2(2) td by (simp add: trace_release transport_teardown_def)
    moreover have "same_player w (release w2 t)"
      using w1(3) w2(3) same_player_release same_player_trans by blast
    moreover have "obj_at (release w2 t) i = Some (Session ts own a p)"
      if "obj_at w i = Some (Session ts own a p)" for i ts own a p
    proof -
      have "i \<noteq> t" using that t by auto
      moreover have "obj_at w2 i = Some (Session ts own a p)"
        using keep [OF that] w2(6) by (simp add: is_transport_def)
      ultimately show ?thesis by (simp add: obj_at_release)
    qed
    moreover have "obj_at (release w2 t) i = None" if "obj_at w i = None" for i
      using dead [OF that] w2(5) by (simp add: obj_at_release)
    moreover have "obj_at (release w2 t) s = None"
      using w2(4) by (simp add: obj_at_release)
    ultimately show ?thesis
      using t Some by (auto simp: obj_at_release)
  qed
qed

lemma transport_ready_elsewhere:
  assumes "\<forall>i. i \<noteq> x \<longrightarrow> obj_at w1 i = obj_at w i"
    and "obj_at w x = Some (Session ts own a pl)" and "obj_at w1 x \<noteq> None"
    and "transport_ready w t"
  shows "transport_ready w1 t \<and> transport_teardown w1 t = transport_teardown w t"
proof -
  obtain src0 owned p where t: "obj_at w t = Some (Transport src0 owned p)"
    using assms(4) by (auto simp: transport_ready_def split: option.splits obj.splits)
  then have "t \<noteq> x" using assms(2) by auto
  then have t1: "obj_at w1 t = Some (Transport src0 owned p)" using assms(1) t by simp
  have alive: "case src0 of Some s \<Rightarrow> obj_at w s \<noteq> None | None \<Rightarrow> True"
    and own: "case owned of Some s \<Rightarrow> source_ready w s | None \<Rightarrow> True"
    using assms(4) t by (simp_all add: transport_ready_def)
  have alive1: "case src0 of Some s \<Rightarrow> obj_at w1 s \<noteq> None | None \<Rightarrow> True"
  proof (cases src0)
    case (Some s)
    then show ?thesis
      using alive assms(1,3) by (cases "s = x") simp_all
  qed simp
  have sess: "is_transport (Session ts own a pl)" by (simp add: is_transport_def)
  have own1: "case owned of Some s \<Rightarrow> source_ready w1 s
                  \<and> source_teardown w1 s = source_teardown w s | None \<Rightarrow> True"
  proof (cases owned)
    case (Some s)
    then show ?thesis
      using source_ready_elsewhere [OF assms(1,2) sess, of s] own by simp
  qed simp
  show ?thesis
    using t t1 alive1 own1
    by (auto simp: transport_ready_def transport_teardown_def split: option.splits)
qed

lemma delete_session_ready:
  assumes "session_ready w x"
  shows "\<exists>w'. delete_session w x = Inr w' \<and> trace w' = trace w @ session_teardown w x
           \<and> same_player w w' \<and> obj_at w' x = None
           \<and> (\<forall>i. obj_at w i = None \<longrightarrow> obj_at w' i = None)
           \<and> (\<forall>ts a pl. obj_at w x = Some (Session ts True a pl) \<longrightarrow>
                 obj_at w' ts = None
                 \<and> (\<forall>a' s pl'. obj_at w ts = Some (Transport a' (Some s) pl')
                       \<longrightarrow> obj_at w' s = None))"
proof -
  obtain ts own src0 pl where x: "obj_at w x = Some (Session ts own src0 pl)"
    using assms by (auto simp: session_ready_def split: option.splits obj.splits)
  have src0: "src0 = None \<or> src0 = Some ts"
    and ts: "\<exists>a owned p. obj_at w ts = Some (Transport a owned p)"
    and own: "own \<longrightarrow> transport_ready w ts"
    using assms x by (auto simp: session_ready_def split: option.splits obj.splits if_splits)
  have alive: "case src0 of Some s \<Rightarrow> obj_at w s \<noteq> None | None \<Rightarrow> True"
    using src0 ts by auto
  obtain w1 where w1: "clearSource w x = Inr w1"
    "trace w1 = trace w @ (case src0 of Some s \<Rightarrow> [Detached x s] | None \<Rightarrow> [])"
    "same_player w w1" "obj_at w1 x = Some (Session ts own None pl)"
    "\<forall>i. i \<noteq> x \<longrightarrow> obj_at w1 i = obj_at w i"
    using clearSource_any_session [OF x alive] by blast
  have tsx: "ts \<noteq> x" using ts x by auto
  have dead: "obj_at w1 i = None" if "obj_at w i = None" for i
  proof -
    have "i \<noteq> x" using that x by auto
    then show ?thesis using w1(5) that by simp
  qed
  have detached: "clearSource w2 x = Inr w2"
    if "obj_at w2 x = Some (Session ts own None pl)" for w2
    using that by (intro clearSource_detached [where ob = "Session ts own None pl"])
      (simp_all add: is_transport_def)
  show ?thesis
  proof (cases own)
    case False
    have "delete_session w x = Inr (release w1 x)"
      using x False w1(1) detached [OF w1(4)] by (simp add: delete_session_def and_then_def)
    moreover have "trace (release w1 x) = trace w @ session_teardown w x"
      using x False w1(2) by (simp add: trace_release session_teardown_def)
    moreover have "same_player w (release w1 x)"
      using w1(3) same_player_release same_player_trans by blast
    ultimately show ?thesis
      using dead x False by (auto simp: obj_at_release)
  next
    case True
    have ready: "transport_ready w1 ts"
      and td: "transport_teardown w1 ts = transport_teardown w ts"
      using transport_ready_elsewhere [OF w1(5) x, of ts] w1(4) own True by simp_all
    obtain w2 where w2: "delete_transport w1 ts = Inr w2"
      "trace w2 = trace w1 @ transport_teardown w1 ts" "same_player w1 w2"
      "obj_at w2 ts = None" "\<forall>i. obj_at w1 i = None \<longrightarrow> obj_at w2 i = None"
      "\<forall>i ts own a pl. obj_at w1 i = Some (Session ts own a pl)
          \<longrightarrow> obj_at w2 i = Some (Session ts own a pl)"
      "\<forall>a s pl. obj_at w1 ts = Some (Transport a (Some s) pl) \<longrightarrow> obj_at w2 s = None"
      using delete_transport_ready [OF ready] by blast
    have x2: "obj_at w2 x = Some (Session ts own None pl)"
      using w2(6) w1(4) by simp
    have "delete_session w x = Inr (release w2 x)"
      using x True w1(1) w2(1) detached [OF x2] by (simp add: delete_session_def and_then_def)
    moreover have "trace (release w2 x) = trace w @ session_teardown w x"
      using x True w1(2) w2(2) td by (simp add: trace_release session_teardown_def)
    moreover have "same_player w (release w2 x)"
      using w1(3) w2(3) same_player_release same_player_trans by blast
    moreover have "obj_at (release w2 x) i = None" if "obj_at w i = None" for i
      using dead [OF that] w2(5) by (simp add: obj_at_release)
    moreover have "obj_at (release w2 x) ts = None"
      using w2(4) by (simp add: obj_at_release)
    moreover have "obj_at (release w2 x) s = None"
      if "obj_at w ts = Some (Transport a' (Some s) pl')" for a' s pl'
    proof -
      have "obj_at w1 ts = Some (Transport a' (Some s) pl')"
        using that w1(5) tsx by simp
      then show ?thesis using w2(7) by (simp add: obj_at_release)
    qed
    ultimately show ?thesis
      using x by (auto simp: obj_at_release)
  qed
qed

section \<open>Who changes the mixer\<close>

lemma mixer_release: "mixer (release w i) = mixer w"
  by (simp add: release_def)

lemma mixer_clearSource: "clearSource w t = Inr w' \<Longrightarrow> mixer w' = mixer w"
  by (auto simp: clearSource_def split: option.splits obj.splits if_splits)

lemma mixer_delete_resource: "delete_resource w r = Inr w' \<Longrightarrow> mixer w' = mixer w"
  by (auto simp: delete_resource_def mixer_release split: option.splits obj.splits)

lemma and_then_Inr:
  "and_then r f = Inr w' \<longleftrightarrow> (\<exists>w1. r = Inr w1 \<and> f w1 = Inr w')"
  by (cases r) (simp_all add: and_then_def)

lemma mixer_delete_source: "delete_source w s = Inr w' \<Longrightarrow> mixer w' = mixer w"
  by (auto simp: delete_source_def and_then_Inr mixer_release
      dest!: mixer_delete_resource split: option.splits obj.splits bool.splits prod.splits)

lemma mixer_delete_transport: "delete_transport w t = Inr w' \<Longrightarrow> mixer w' = mixer w"
  by (auto simp: delete_transport_def and_then_Inr mixer_release
      dest!: mixer_delete_source mixer_clearSource split: option.splits obj.splits)

lemma mixer_delete_session: "delete_session w x = Inr w' \<Longrightarrow> mixer w' = mixer w"
  by (auto simp: delete_session_def and_then_Inr mixer_release
      dest!: mixer_delete_transport mixer_clearSource split: option.splits obj.splits if_splits)

lemma mixer_set_playing: "mixer (set_playing w t v) = mixer w"
  by (simp add: set_playing_def split: option.splits obj.splits)

lemma mixer_attachSource: "mixer (attachSource w t s) = mixer w"
  by (simp add: attachSource_def split: option.splits obj.splits)

lemma mixer_alloc: "alloc w ob = (i, w') \<Longrightarrow> mixer w' = mixer w"
  by (auto simp: alloc_def)

lemma registered_addInputSource:
  "registered w x \<Longrightarrow> registered (addInputSource w y del) x"
  by (simp add: addInputSource_def registered_def)

lemma registered_mixer_eq: "mixer w' = mixer w \<Longrightarrow> registered w' x = registered w x"
  by (simp add: registered_def)

lemma registered_newSession:
  "registered w x \<Longrightarrow> registered (newAutoRemovingTransportSource w ts own) x"
proof -
  assume r: "registered w x"
  obtain i w1 where a: "alloc w (Session ts own None False) = (i, w1)"
    by (cases "alloc w (Session ts own None False)")
  have "mixer (startTransport (attachSource w1 i ts) i) = mixer w"
    using mixer_alloc [OF a] by (simp add: startTransport_def mixer_set_playing mixer_attachSource)
  then have "registered (startTransport (attachSource w1 i ts) i) x"
    using r by (simp add: registered_def)
  then show ?thesis
    using a by (simp add: newAutoRemovingTransportSource_def registered_addInputSource)
qed

lemma registered_play_source:
  assumes "play_source w a del rate = Inr w'" and "registered w x"
  shows "registered w' x"
proof (cases a)
  case None
  then show ?thesis using assms by (simp add: play_source_def)
next
  case (Some src0)
  then obtain ob where ob: "obj_at w src0 = Some ob"
    using assms(1) by (auto simp: play_source_def split: option.splits)
  have keep: "registered (newAutoRemovingTransportSource (startTransport w1 t) t own) x"
    if "mixer w1 = mixer w" for w1 t own
  proof -
    have "registered (startTransport w1 t) x"
      using that assms(2) by (simp add: registered_def startTransport_def mixer_set_playing)
    then show ?thesis by (rule registered_newSession)
  qed
  show ?thesis
    using assms(1) Some ob
    by (auto simp: play_source_def Let_def alloc_def mixer_attachSource
        intro!: keep split: if_splits)
qed

lemma registered_play_reader:
  assumes "play_reader w r del = Inr w'" and "registered w x"
  shows "registered w' x"
proof (cases r)
  case None
  then show ?thesis using assms by (simp add: play_reader_def)
next
  case (Some i)
  then obtain rate where "play_source (w\<lparr>heap := heap w @ [Some (PlainSource (Some (i, del)))]\<rparr>)
      (Some (length (heap w))) True rate = Inr w'"
    using assms(1) by (auto simp: play_reader_def alloc_def split: option.splits obj.splits)
  then show ?thesis
    by (rule registered_play_source) (use assms(2) in \<open>simp add: registered_def\<close>)
qed

lemma registered_play_buffer:
  assumes "play_buffer w b del fan = Inr w'" and "registered w x"
  shows "registered w' x"
proof (cases b)
  case None
  then show ?thesis using assms by (simp add: play_buffer_def)
next
  case (Some i)
  then have "play_source (w\<lparr>heap := heap w @ [Some (PlainSource (Some (i, del)))]\<rparr>)
      (Some (length (heap w))) True 0 = Inr w'"
    using assms(1) by (simp add: play_buffer_def alloc_def)
  then show ?thesis
    by (rule registered_play_source) (use assms(2) in \<open>simp add: registered_def\<close>)
qed

lemma registered_play_decoded:
  assumes "play_decoded crf w dat = Inr w'" and "registered w x"
  shows "registered w' x"
proof (cases "crf dat")
  case None
  then show ?thesis using assms by (simp add: play_decoded_def play_reader_def)
next
  case (Some rate)
  then have "play_reader (w\<lparr>heap := heap w @ [Some (Reader rate)]\<rparr>)
      (Some (length (heap w))) True = Inr w'"
    using assms(1) by (simp add: play_decoded_def alloc_def)
  then show ?thesis
    by (rule registered_play_reader) (use assms(2) in \<open>simp add: registered_def\<close>)
qed

lemma mixer_audioDeviceIOCallback: "mixer (audioDeviceIOCallback w finished) = mixer w"
  unfolding audioDeviceIOCallback_def
  by (induction finished arbitrary: w) (simp_all add: mixer_set_playing)

lemma registered_timerCallback_other:
  assumes "timerCallback w y = Inr w'" and "registered w x" and "y \<noteq> x"
  shows "registered w' x"
proof -
  have "registered w' x" if "removeInputSource w y = Inr w'"
  proof (cases "map_of (mixer w) y")
    case None
    then show ?thesis using that assms(2) by (simp add: removeInputSource_def)
  next
    case (Some del)
    let ?w1 = "w\<lparr>mixer := filter (\<lambda>entry. fst entry \<noteq> y) (mixer w)\<rparr>"
    have r1: "registered ?w1 x"
      using assms(2,3) by (auto simp: registered_def)
    have "mixer w' = mixer ?w1"
      using that Some by (auto simp: removeInputSource_def Let_def
          dest: mixer_delete_session split: if_splits)
    then show ?thesis
      using r1 by (simp add: registered_def)
  qed
  then show ?thesis
    using assms(1,2)
    by (auto simp: timerCallback_def split: option.splits obj.splits if_splits)
qed

lemma step_keeps_registration:
  assumes "step crf w ev = Inr w'" and "registered w x" and "\<not> registered w' x"
  shows "ev = TimerTick x \<or> ev = DeletePlayer"
proof (rule ccontr)
  assume no: "\<not> ?thesis"
  have "registered w' x"
  proof (cases ev)
    case (PlayFile f)
    then show ?thesis
      using assms(1,2) registered_play_decoded [of crf w "fileData f" w' x]
      by (auto simp: step_def play_file_def split: if_splits)
  next
    case (PlayBytes d n)
    then show ?thesis
      using assms(1,2) registered_play_decoded [of crf w _ w' x]
      by (auto simp: step_def play_bytes_def split: if_splits option.splits)
  next
    case (PlayReader r del)
    then show ?thesis
      using assms(1,2) registered_play_reader [of w r del w' x] by (simp add: step_def)
  next
    case (PlayBuffer b del fan)
    then show ?thesis
      using assms(1,2) registered_play_buffer [of w b del fan w' x] by (simp add: step_def)
  next
    case (PlaySource a del rate)
    then show ?thesis
      using assms(1,2) registered_play_source [of w a del rate w' x] by (simp add: step_def)
  next
    case PlayTestSound
    then have "play_buffer (w\<lparr>heap := heap w @ [Some Buffer]\<rparr>) (Some (length (heap w)))
        True True = Inr w'"
      using assms(1) by (simp add: step_def playTestSound_def alloc_def)
    then show ?thesis
      by (rule registered_play_buffer) (use assms(2) in \<open>simp add: registered_def\<close>)
  next
    case (AboutToStart device)
    then show ?thesis
      using assms(1,2)
      by (auto simp: step_def audioDeviceAboutToStart_def registered_def split: option.splits)
  next
    case (IOCallback finished)
    then show ?thesis
      using assms(1,2) mixer_audioDeviceIOCallback [of w finished]
      by (auto simp: step_def registered_def)
  next
    case DeviceStopped
    then show ?thesis using assms(1,2) by (simp add: step_def)
  next
    case DeviceError
    then show ?thesis using assms(1,2) by (simp add: step_def)
  next
    case (TimerTick y)
    then show ?thesis
      using assms(1,2) no registered_timerCallback_other [of w y w' x]
      by (auto simp: step_def)
  next
    case DeletePlayer
    then show ?thesis using no by simp
  qed
  then show False using assms(3) by simp
qed

section \<open>A session from play to teardown\<close>

lemma obj_at_mixer_update: "obj_at (w\<lparr>mixer := m\<rparr>) i = obj_at w i"
  by (simp add: obj_at_def)

lemma source_ready_mixer_update: "source_ready (w\<lparr>mixer := m\<rparr>) s = source_ready w s"
  by (simp add: source_ready_def resource_live_def obj_at_mixer_update
      cong: option.case_cong obj.case_cong prod.case_cong bool.case_cong if_cong)

lemma transport_ready_mixer_update:
  "transport_ready (w\<lparr>mixer := m\<rparr>) t = transport_ready w t"
  by (simp add: transport_ready_def source_ready_mixer_update obj_at_mixer_update
      cong: option.case_cong obj.case_cong prod.case_cong bool.case_cong if_cong)

lemma session_ready_mixer_update: "session_ready (w\<lparr>mixer := m\<rparr>) x = session_ready w x"
  by (simp add: session_ready_def transport_ready_mixer_update obj_at_mixer_update
      cong: option.case_cong obj.case_cong prod.case_cong bool.case_cong if_cong)

lemma source_teardown_mixer_update:
  "source_teardown (w\<lparr>mixer := m\<rparr>) s = source_teardown w s"
  by (simp add: source_teardown_def obj_at_mixer_update
      cong: option.case_cong obj.case_cong prod.case_cong bool.case_cong if_cong)

lemma transport_teardown_mixer_update:
  "transport_teardown (w\<lparr>mixer := m\<rparr>) t = transport_teardown w t"
  by (simp add: transport_teardown_def source_teardown_mixer_update obj_at_mixer_update
      cong: option.case_cong obj.case_cong prod.case_cong bool.case_cong if_cong)

lemma session_teardown_mixer_update:
  "session_teardown (w\<lparr>mixer := m\<rparr>) x = session_teardown w x"
  by (simp add: session_teardown_def transport_teardown_mixer_update obj_at_mixer_update
      cong: option.case_cong obj.case_cong prod.case_cong bool.case_cong if_cong)

lemma timerCallback_removes:
  assumes "map_of (mixer w) x = Some True" and "session_ready w x"
    and "\<not> session_transport_playing w x"
  shows "\<exists>w'. timerCallback w x = Inr w' \<and> \<not> registered w' x \<and> obj_at w' x = None
           \<and> trace w' = trace w @ session_teardown w x
           \<and> mixer w' = filter (\<lambda>entry. fst entry \<noteq> x) (mixer w)
           \<and> sampleRate w' = sampleRate w \<and> bufferSize w' = bufferSize w
           \<and> (\<forall>i. obj_at w i = None \<longrightarrow> obj_at w' i = None)
           \<and> (\<forall>ts a pl. obj_at w x = Some (Session ts True a pl) \<longrightarrow>
                 obj_at w' ts = None
                 \<and> (\<forall>a' s pl'. obj_at w ts = Some (Transport a' (Some s) pl')
                       \<longrightarrow> obj_at w' s = None))"
proof -
  obtain ts own src0 pl where x: "obj_at w x = Some (Session ts own src0 pl)"
    using assms(2) by (auto simp: session_ready_def split: option.splits obj.splits)
  obtain tob where ts: "obj_at w ts = Some tob"
    using assms(2) x by (auto simp: session_ready_def split: option.splits)
  have quiet: "\<not> isPlaying w ts"
    using assms(3) x by (simp add: session_transport_playing_def)
  let ?w1 = "w\<lparr>mixer := filter (\<lambda>entry. fst entry \<noteq> x) (mixer w)\<rparr>"
  have tick: "timerCallback w x = delete_session ?w1 x"
    using x ts quiet assms(1) by (simp add: timerCallback_def removeInputSource_def)
  obtain w' where w': "delete_session ?w1 x = Inr w'"
    "trace w' = trace ?w1 @ session_teardown ?w1 x" "same_player ?w1 w'" "obj_at w' x = None"
    "\<forall>i. obj_at ?w1 i = None \<longrightarrow> obj_at w' i = None"
    "\<forall>ts a pl. obj_at ?w1 x = Some (Session ts True a pl) \<longrightarrow>
        obj_at w' ts = None
        \<and> (\<forall>a' s pl'. obj_at ?w1 ts = Some (Transport a' (Some s) pl')
              \<longrightarrow> obj_at w' s = None)"
    using delete_session_ready [of ?w1 x] assms(2) by (auto simp: session_ready_mixer_update)
  have m: "mixer w' = filter (\<lambda>entry. fst entry \<noteq> x) (mixer w)"
    using w'(3) by (simp add: same_player_def)
  then have "\<not> registered w' x"
    by (auto simp: registered_def)
  then show ?thesis
    using tick w' m
    by (simp add: session_teardown_mixer_update obj_at_mixer_update same_player_def)
qed

lemma play_source_owned:
  assumes "obj_at w a = Some (PlainSource res)"
    and "\<not> registered w (Suc (length (heap w)))"
  shows "play_source w (Some a) True rate =
           Inr (w\<lparr>heap := heap w @ [Some (Transport (Some a) (Some a) True),
                     Some (Session (length (heap w)) True (Some (length (heap w))) True)],
                  mixer := mixer w @ [(Suc (length (heap w)), True)]\<rparr>)"
proof -
  let ?t = "length (heap w)"
  let ?w1 = "w\<lparr>heap := heap w @ [Some (Transport (Some a) (Some a) True)]\<rparr>"
  have t: "startTransport (attachSource
               (w\<lparr>heap := heap w @ [Some (Transport None (Some a) False)]\<rparr>) ?t a) ?t = ?w1"
    by (simp add: startTransport_def set_playing_def attachSource_def obj_at_def)
  have x: "newAutoRemovingTransportSource ?w1 ?t True =
             ?w1\<lparr>heap := heap ?w1 @ [Some (Session ?t True (Some ?t) True)],
                  mixer := mixer w @ [(Suc ?t, True)]\<rparr>"
    using assms(2)
    by (simp add: newAutoRemovingTransportSource_def alloc_def startTransport_def
        set_playing_def attachSource_def obj_at_def addInputSource_def registered_def
        nth_append list_update_append)
  show ?thesis
    using assms(1) t x
    by (simp add: play_source_def is_transport_def alloc_def)
qed

lemma obj_at_extend:
  "i < length (heap w) \<Longrightarrow> obj_at (w\<lparr>heap := heap w @ ys, mixer := m\<rparr>) i = obj_at w i"
  by (simp add: obj_at_def nth_append)

lemma source_ready_extend:
  assumes "source_ready w a"
  shows "source_ready (w\<lparr>heap := heap w @ ys, mixer := m\<rparr>) a
         \<and> source_teardown (w\<lparr>heap := heap w @ ys, mixer := m\<rparr>) a = source_teardown w a"
proof -
  let ?w' = "w\<lparr>heap := heap w @ ys, mixer := m\<rparr>"
  obtain res where a: "obj_at w a = Some (PlainSource res)"
    using assms by (auto simp: source_ready_def split: option.splits obj.splits)
  then have a': "obj_at ?w' a = Some (PlainSource res)"
    using obj_at_extend [where i = a and w = w and ys = ys and m = m] obj_at_Some_less [OF a] by simp
  show ?thesis
  proof (cases "\<exists>r. res = Some (r, True)")
    case True
    then obtain r where res: "res = Some (r, True)" by blast
    then have live: "resource_live w r" using assms a by (simp add: source_ready_def)
    then obtain rob where r: "obj_at w r = Some rob"
      by (auto simp: resource_live_def split: option.splits)
    then have "obj_at ?w' r = obj_at w r"
      using obj_at_extend [where i = r and w = w and ys = ys and m = m] obj_at_Some_less [OF r] by simp
    then have "resource_live ?w' r" using live by (simp add: resource_live_def)
    then show ?thesis
      using a a' res by (simp add: source_ready_def source_teardown_def)
  next
    case False
    then show ?thesis
      using a a' by (cases res) (auto simp: source_ready_def source_teardown_def split: bool.splits)
  qed
qed

lemma count_source_teardown:
  assumes "source_ready w a"
  shows "count_list (source_teardown w a) (Destroyed a) = 1"
proof -
  obtain res where a: "obj_at w a = Some (PlainSource res)"
    using assms by (auto simp: source_ready_def split: option.splits obj.splits)
  show ?thesis
  proof (cases "\<exists>r. res = Some (r, True)")
    case True
    then obtain r where res: "res = Some (r, True)" by blast
    then have "resource_live w r" using assms a by (simp add: source_ready_def)
    then have "r \<noteq> a"
      using a by (auto simp: resource_live_def split: option.splits obj.splits)
    then show ?thesis using a res by (simp add: source_teardown_def)
  next
    case False
    then show ?thesis
      using a by (cases res) (auto simp: source_teardown_def split: bool.splits)
  qed
qed

lemma ceded_source_lifecycle:
  assumes "source_ready w a" and "\<not> registered w (Suc (length (heap w)))"
  shows "\<exists>w1 w2. play_source w (Some a) True rate = Inr w1
      \<and> obj_at w1 (length (heap w)) = Some (Transport (Some a) (Some a) True)
      \<and> obj_at w1 (Suc (length (heap w)))
           = Some (Session (length (heap w)) True (Some (length (heap w))) True)
      \<and> mixer w1 = mixer w @ [(Suc (length (heap w)), True)]
      \<and> timerCallback (audioDeviceIOCallback w1 [length (heap w)]) (Suc (length (heap w)))
           = Inr w2
      \<and> trace w2 = trace w @ [Detached (Suc (length (heap w))) (length (heap w)),
                                Detached (length (heap w)) a]
                     @ source_teardown w a
                     @ [Destroyed (length (heap w)), Destroyed (Suc (length (heap w)))]
      \<and> count_list (drop (length (trace w)) (trace w2)) (Destroyed a) = 1
      \<and> obj_at w2 a = None \<and> mixer w2 = mixer w"
proof -
  let ?t = "length (heap w)"
  let ?x = "Suc (length (heap w))"
  obtain res where a: "obj_at w a = Some (PlainSource res)"
    using assms(1) by (auto simp: source_ready_def split: option.splits obj.splits)
  have al: "a < ?t" using a by (rule obj_at_Some_less)
  define w1 where "w1 = w\<lparr>heap := heap w @ [Some (Transport (Some a) (Some a) True),
                     Some (Session ?t True (Some ?t) True)],
                  mixer := mixer w @ [(?x, True)]\<rparr>"
  define w1' where "w1' = w\<lparr>heap := heap w @ [Some (Transport (Some a) (Some a) False),
                     Some (Session ?t True (Some ?t) True)],
                  mixer := mixer w @ [(?x, True)]\<rparr>"
  have play: "play_source w (Some a) True rate = Inr w1"
    using play_source_owned [OF a assms(2)] by (simp add: w1_def)
  have t1: "obj_at w1 ?t = Some (Transport (Some a) (Some a) True)"
    and x1: "obj_at w1 ?x = Some (Session ?t True (Some ?t) True)"
    by (simp_all add: w1_def obj_at_def nth_append)
  have stop: "audioDeviceIOCallback w1 [?t] = w1'"
    by (simp add: audioDeviceIOCallback_def set_playing_def w1_def w1'_def obj_at_def
        nth_append list_update_append)
  have t1': "obj_at w1' ?t = Some (Transport (Some a) (Some a) False)"
    and x1': "obj_at w1' ?x = Some (Session ?t True (Some ?t) True)"
    by (simp_all add: w1'_def obj_at_def nth_append)
  have a1': "obj_at w1' a = obj_at w a"
    using al obj_at_extend [where i = a and w = w] by (simp add: w1'_def)
  have sr: "source_ready w1' a" and std: "source_teardown w1' a = source_teardown w a"
    using source_ready_extend [OF assms(1)] by (simp_all add: w1'_def)
  have unreg: "map_of (mixer w) ?x = None"
    using assms(2) by (simp add: registered_def map_of_eq_None_iff)
  have reg: "map_of (mixer w1') ?x = Some True"
    using unreg by (simp add: w1'_def map_add_def)
  have ready: "session_ready w1' ?x"
    using x1' t1' a1' a sr by (simp add: session_ready_def transport_ready_def)
  have quiet: "\<not> session_transport_playing w1' ?x"
    using x1' t1' by (simp add: session_transport_playing_def isPlaying_def)
  obtain w2 where w2: "timerCallback w1' ?x = Inr w2"
    "trace w2 = trace w1' @ session_teardown w1' ?x"
    "mixer w2 = filter (\<lambda>entry. fst entry \<noteq> ?x) (mixer w1')"
    "\<forall>ts a pl. obj_at w1' ?x = Some (Session ts True a pl) \<longrightarrow>
        obj_at w2 ts = None
        \<and> (\<forall>a' s pl'. obj_at w1' ts = Some (Transport a' (Some s) pl')
              \<longrightarrow> obj_at w2 s = None)"
    using timerCallback_removes [OF reg ready quiet] by blast
  have td: "session_teardown w1' ?x =
      [Detached ?x ?t, Detached ?t a] @ source_teardown w a @ [Destroyed ?t, Destroyed ?x]"
    using x1' t1' std by (simp add: session_teardown_def transport_teardown_def)
  have tr: "trace w2 = trace w @ [Detached ?x ?t, Detached ?t a] @ source_teardown w a
                         @ [Destroyed ?t, Destroyed ?x]"
    using w2(2) td by (simp add: w1'_def)
  have cnt: "count_list (drop (length (trace w)) (trace w2)) (Destroyed a) = 1"
    using count_source_teardown [OF assms(1)] al by (simp add: tr)
  have gone: "obj_at w2 a = None"
    using w2(4) x1' t1' by blast
  have "filter (\<lambda>entry. fst entry \<noteq> ?x) (mixer w) = mixer w"
    using assms(2) by (force simp: registered_def filter_id_conv)
  then have mix: "mixer w2 = mixer w"
    using w2(3) by (simp add: w1'_def)
  show ?thesis
    using play t1 x1 stop w2(1) tr cnt gone mix by (auto simp: w1_def)
qed

lemma ceded_buffer_lifecycle:
  assumes "obj_at w b = Some Buffer" and "\<not> registered w (Suc (Suc (length (heap w))))"
  shows "\<exists>w1 w2. play_buffer w (Some b) True fanOut = Inr w1
      \<and> mixer w1 = mixer w @ [(Suc (Suc (length (heap w))), True)]
      \<and> timerCallback (audioDeviceIOCallback w1 [Suc (length (heap w))])
           (Suc (Suc (length (heap w)))) = Inr w2
      \<and> trace w2 = trace w @ [Detached (Suc (Suc (length (heap w)))) (Suc (length (heap w))),
                                Detached (Suc (length (heap w))) (length (heap w)),
                                Destroyed b, Destroyed (length (heap w)),
                                Destroyed (Suc (length (heap w))),
                                Destroyed (Suc (Suc (length (heap w))))]
      \<and> obj_at w2 (length (heap w)) = None \<and> mixer w2 = mixer w"
proof -
  let ?s = "length (heap w)"
  define w' where "w' = w\<lparr>heap := heap w @ [Some (PlainSource (Some (b, True)))]\<rparr>"
  have bl: "b < ?s" using assms(1) by (rule obj_at_Some_less)
  have s: "obj_at w' ?s = Some (PlainSource (Some (b, True)))"
    by (simp add: w'_def obj_at_def)
  have b': "obj_at w' b = Some Buffer"
    using assms(1) bl by (simp add: w'_def obj_at_def nth_append)
  have ready: "source_ready w' ?s"
    using s b' by (simp add: source_ready_def resource_live_def)
  have td: "source_teardown w' ?s = [Destroyed b, Destroyed ?s]"
    using s by (simp add: source_teardown_def)
  have unreg: "\<not> registered w' (Suc (length (heap w')))"
    using assms(2) by (simp add: w'_def registered_def)
  have pb: "play_buffer w (Some b) True fanOut = play_source w' (Some ?s) True 0"
    by (simp add: play_buffer_def alloc_def w'_def)
  show ?thesis
    using ceded_source_lifecycle [OF ready unreg, of 0] td pb
    by (auto simp: w'_def)
qed

section \<open>The claims about sessions\<close>

text \<open>
  C6. A session that is registered in the mixer (with the flag set, as its constructor
  registers it), whose pointers are intact and whose transport reports that it is not
  playing: the next tick of its timer returns normally, the registration is gone, and
  the session is destroyed, its teardown appended to the trace. And an event after
  which a registered session is no longer registered is the tick of that session's own
  timer or the destruction of the player: playing more sounds, device callbacks and
  the ticks of other sessions leave the registration in place. The tick is an event of
  the model; the 100 ms between ticks are not part of it.
\<close>

theorem finished_session_leaves_mixer:
  "(map_of (mixer w) x = Some True \<and> session_ready w x \<and> \<not> session_transport_playing w x
      \<longrightarrow> (\<exists>w'. step createReaderFor w (TimerTick x) = Inr w'
                 \<and> \<not> registered w' x \<and> obj_at w' x = None
                 \<and> trace w' = trace w @ session_teardown w x))
   \<and> (registered w x \<and> step createReaderFor w ev = Inr v \<and> \<not> registered v x
      \<longrightarrow> ev = TimerTick x \<or> ev = DeletePlayer)"
proof -
  have "\<exists>w'. step createReaderFor w (TimerTick x) = Inr w'
                 \<and> \<not> registered w' x \<and> obj_at w' x = None
                 \<and> trace w' = trace w @ session_teardown w x"
    if "map_of (mixer w) x = Some True" "session_ready w x" "\<not> session_transport_playing w x"
    using timerCallback_removes [OF that] by (auto simp: step_def)
  then show ?thesis
    using step_keeps_registration [of createReaderFor w ev v x] by blast
qed

theorem finished_session_leaves_mixer_witness:
  "(case play_source studio (Some 0) True 48000 of
      Inr w1 \<Rightarrow> audioDeviceIOCallback w1 [2] = finished_studio | Inl e \<Rightarrow> False)
   \<and> map_of (mixer finished_studio) 3 = Some True \<and> session_ready finished_studio 3
   \<and> \<not> session_transport_playing finished_studio 3
   \<and> registered finished_studio 3
   \<and> step (\<lambda>d::nat. Some 44100) finished_studio (TimerTick 3) = Inr emptied_studio
   \<and> \<not> registered emptied_studio 3 \<and> obj_at emptied_studio 3 = None"
proof -
  have h: "(case play_source studio (Some 0) True 48000 of
      Inr w1 \<Rightarrow> audioDeviceIOCallback w1 [2] = finished_studio | Inl e \<Rightarrow> False)"
    "map_of (mixer finished_studio) 3 = Some True" "session_ready finished_studio 3"
    "\<not> session_transport_playing finished_studio 3"
    "registered finished_studio 3"
    "step (\<lambda>d::nat. Some 44100) finished_studio (TimerTick 3) = Inr emptied_studio"
    "\<not> registered emptied_studio 3"
    by code_simp+
  show ?thesis
    using h finished_session_leaves_mixer [where w = finished_studio and x = 3
        and createReaderFor = "\<lambda>d::nat. Some 44100" and ev = "TimerTick 3"
        and v = emptied_studio]
    by auto
qed

text \<open>
  C8. A source of the caller handed to \<open>play\<close> with ownership ceded is wrapped in an
  owning transport and that in a session. When the transport has finished, the session's
  timer tick tears everything down without a use after free or a double delete, and the
  trace of that teardown is: the session detaches the transport, the transport detaches
  the source, the source is destroyed (after the buffer or reader it owns, if any), then
  the transport, then the session. The source is destroyed exactly once, after its
  detachment, and it is gone from the store. The same holds for a buffer handed to
  \<open>play\<close> with ownership ceded: the buffer source built around it is destroyed once,
  after the buffer.
\<close>

theorem ceded_ownership_destroyed_once:
  "(source_ready w a \<and> \<not> registered w (Suc (length (heap w))) \<longrightarrow>
     (\<exists>w1 w2. play_source w (Some a) True rate = Inr w1
        \<and> obj_at w1 (length (heap w)) = Some (Transport (Some a) (Some a) True)
        \<and> obj_at w1 (Suc (length (heap w)))
             = Some (Session (length (heap w)) True (Some (length (heap w))) True)
        \<and> mixer w1 = mixer w @ [(Suc (length (heap w)), True)]
        \<and> timerCallback (audioDeviceIOCallback w1 [length (heap w)]) (Suc (length (heap w)))
             = Inr w2
        \<and> trace w2 = trace w @ [Detached (Suc (length (heap w))) (length (heap w)),
                                  Detached (length (heap w)) a]
                       @ source_teardown w a
                       @ [Destroyed (length (heap w)), Destroyed (Suc (length (heap w)))]
        \<and> count_list (drop (length (trace w)) (trace w2)) (Destroyed a) = 1
        \<and> obj_at w2 a = None \<and> mixer w2 = mixer w))
   \<and> (obj_at w b = Some Buffer \<and> \<not> registered w (Suc (Suc (length (heap w)))) \<longrightarrow>
     (\<exists>w1 w2. play_buffer w (Some b) True fanOut = Inr w1
        \<and> mixer w1 = mixer w @ [(Suc (Suc (length (heap w))), True)]
        \<and> timerCallback (audioDeviceIOCallback w1 [Suc (length (heap w))])
             (Suc (Suc (length (heap w)))) = Inr w2
        \<and> trace w2 = trace w @ [Detached (Suc (Suc (length (heap w)))) (Suc (length (heap w))),
                                  Detached (Suc (length (heap w))) (length (heap w)),
                                  Destroyed b, Destroyed (length (heap w)),
                                  Destroyed (Suc (length (heap w))),
                                  Destroyed (Suc (Suc (length (heap w))))]
        \<and> obj_at w2 (length (heap w)) = None \<and> mixer w2 = mixer w))"
  using ceded_source_lifecycle [of w a rate] ceded_buffer_lifecycle [of w b fanOut]
  by blast

theorem ceded_ownership_destroyed_once_witness:
  "source_ready studio 0 \<and> \<not> registered studio 3
   \<and> obj_at studio 1 = Some Buffer \<and> \<not> registered studio 4
   \<and> (\<exists>w1 w2. play_source studio (Some 0) True 48000 = Inr w1
         \<and> timerCallback (audioDeviceIOCallback w1 [2]) 3 = Inr w2
         \<and> trace w2 = [Detached 3 2, Detached 2 0, Destroyed 0, Destroyed 2, Destroyed 3]
         \<and> obj_at w2 0 = None)
   \<and> (\<exists>w1 w2. play_buffer studio (Some 1) True True = Inr w1
         \<and> timerCallback (audioDeviceIOCallback w1 [3]) 4 = Inr w2
         \<and> trace w2 = [Detached 4 3, Detached 3 2, Destroyed 1, Destroyed 2, Destroyed 3,
                        Destroyed 4])"
proof -
  have h: "source_ready studio 0" "\<not> registered studio 3"
    "obj_at studio 1 = Some Buffer" "\<not> registered studio 4"
    by code_simp+
  have c: "length (heap studio) = 2" "trace studio = []"
    "source_teardown studio 0 = [Destroyed 0]"
    by code_simp+
  have s: "Suc (length (heap studio)) = 3" "Suc (Suc (length (heap studio))) = 4"
    by (simp_all add: c)
  show ?thesis
    using h ceded_ownership_destroyed_once [where w = studio and a = 0 and b = 1
        and rate = 48000 and fanOut = True]
    unfolding s c by (simp del: One_nat_def) blast
qed

text \<open>
  C7. Each \<open>play\<close> overload returns normally and leaves the world as it was (mixer
  registrations, cached sample rate and block size, store and trace) on degenerate
  input: null bytes, a length of 0, a null reader, a null source with or without the
  request to delete it, a null buffer, a file that does not exist.
\<close>

theorem degenerate_play_is_noop:
  "play_bytes createReaderFor w None resourceSize = Inr w
   \<and> play_bytes createReaderFor w resourceData 0 = Inr w
   \<and> play_reader w None deleteWhenFinished = Inr w
   \<and> play_source w None deleteWhenFinished rate = Inr w
   \<and> play_buffer w None deleteWhenFinished fanOut = Inr w
   \<and> (\<not> existsAsFile f \<longrightarrow> play_file createReaderFor w f = Inr w)"
  by (simp add: play_bytes_def play_reader_def play_source_def play_buffer_def play_file_def
      split: option.splits)

theorem degenerate_play_is_noop_witness:
  "\<not> existsAsFile silent_file
   \<and> play_file (\<lambda>d. Some 44100) studio silent_file = Inr studio
   \<and> play_bytes (\<lambda>d. Some 44100) studio (Some (5::nat)) 0 = Inr studio"
  using degenerate_play_is_noop [where createReaderFor = "\<lambda>d. Some 44100" and w = studio
      and resourceData = "Some (5::nat)" and f = silent_file]
  by (simp add: silent_file_def)

end
